theory Spec2Isabelle
  imports
    Complex_Main
    "HOL-Library.Sublist"
    "HOL-Library.AList"
    "HOL-Library.Multiset"
    "HOL-Library.Char_ord"
    "HOL-Library.List_Lexorder"
    "HOL-Library.Product_Lexorder"
begin

section \<open>Python values, dictionaries and faults\<close>

text \<open>
  The exporter (\<^verbatim>\<open>files/scripts/app.py\<close>) works on the untyped dictionaries that the
  CRM client hands out (parsed JSON). A value is \<open>None\<close>, a boolean, a number, a string,
  a list or a dictionary. A number is kept by its numeric value, which is all that
  \<open>==\<close>, hashing and truthiness look at (\<open>1 == 1.0 == True\<close>); a dictionary is an
  association list in insertion order, read through \<open>map_of\<close>.
\<close>

datatype pyval =
    PNone
  | PBool bool
  | PNum rat
  | PStr string
  | PList "pyval list"
  | PDict "(string \<times> pyval) list"

type_synonym pydict = "(string \<times> pyval) list"

text \<open>
  Faults of the record source (\<open>SalesforceMalformedRequest\<close>, carrying \<open>str(e)\<close>;
  \<open>SalesforceAuthenticationFailed\<close>; any other fault, such as a network error) and the
  built-in exceptions the code can run into (\<open>CsvError\<close> is \<open>csv.Error\<close>).
\<close>

datatype error =
    MalformedRequest string
  | AuthenticationFailed string
  | OtherFault string
  | TypeError
  | AttributeError
  | KeyError
  | CsvError

text \<open>Truth value testing, as \<open>if v\<close>, \<open>not v\<close> and \<open>v or w\<close> do it.\<close>

fun truthy :: "pyval \<Rightarrow> bool" where
  "truthy PNone = False"
| "truthy (PBool b) = b"
| "truthy (PNum n) = (n \<noteq> 0)"
| "truthy (PStr s) = (s \<noteq> [])"
| "truthy (PList xs) = (xs \<noteq> [])"
| "truthy (PDict d) = (d \<noteq> [])"

definition py_or :: "pyval \<Rightarrow> pyval \<Rightarrow> pyval" where
  "py_or a b = (if truthy a then a else b)"

text \<open>\<open>d.get(k)\<close>: the value stored under \<open>k\<close>, \<open>None\<close> when the key is missing.\<close>

definition dict_get :: "pydict \<Rightarrow> string \<Rightarrow> pyval" where
  "dict_get d k = (case map_of d k of None \<Rightarrow> PNone | Some v \<Rightarrow> v)"

text \<open>\<open>d[k] = v\<close>: replaces the value in place, or appends the new key at the end.\<close>

definition dict_set :: "pydict \<Rightarrow> string \<Rightarrow> pyval \<Rightarrow> pydict" where
  "dict_set d k v = AList.update k v d"

text \<open>The single quote character, for the string constants that contain it.\<close>

definition sq :: string where
  "sq = [CHR 0x27]"

section \<open>The record source\<close>

text \<open>
  The client object \<open>sf\<close> after login: \<open>getattr(sf, name).describe()\<close>,
  \<open>sf.query(soql)\<close> and \<open>sf.query_all_iter(soql)\<close>. The iterator yields records and
  then either ends or raises a fault; it is given as the records it yields and the
  fault that ends it, if any.
\<close>

record sf_client =
  describe :: "string \<Rightarrow> error + pydict"
  query :: "string \<Rightarrow> error + pydict"
  query_all_iter :: "string \<Rightarrow> pydict list \<times> error option"

section \<open>Schema discoverer\<close>

text \<open>
  One turn of the loop of \<open>discover_custom_fields\<close> on the descriptor \<open>f\<close>:
  the name to append, or nothing when the descriptor is skipped. \<open>f.get\<close> needs a
  dictionary and \<open>name.endswith\<close> a string; anything else raises AttributeError.
\<close>

definition keep_field :: "pyval \<Rightarrow> error + string option" where
  "keep_field f =
     (case f of
        PDict fd \<Rightarrow>
          (let name = dict_get fd ''name'' in
           if \<not> truthy name then Inr None
           else (case name of
                   PStr s \<Rightarrow>
                     if \<not> suffix ''__c'' s then Inr None
                     else if truthy (dict_get fd ''deprecatedAndHidden'') then Inr None
                     else if map_of fd ''queryable'' \<noteq> None \<and> \<not> truthy (dict_get fd ''queryable'')
                       then Inr None
                     else Inr (Some s)
                 | _ \<Rightarrow> Inl AttributeError))
      | _ \<Rightarrow> Inl AttributeError)"

fun scan_fields :: "pyval list \<Rightarrow> error + string list" where
  "scan_fields [] = Inr []"
| "scan_fields (f # fs) =
     (case keep_field f of
        Inl e \<Rightarrow> Inl e
      | Inr k \<Rightarrow>
          (case scan_fields fs of
             Inl e \<Rightarrow> Inl e
           | Inr ns \<Rightarrow> Inr (case k of None \<Rightarrow> ns | Some n \<Rightarrow> n # ns)))"

text \<open>
  What \<open>for f in desc.get("fields", [])\<close> iterates over: the elements of a list, the
  characters of a string, the keys of a dictionary; other values are not iterable.
\<close>

definition iter_fields :: "pydict \<Rightarrow> error + pyval list" where
  "iter_fields desc =
     (case map_of desc ''fields'' of
        None \<Rightarrow> Inr []
      | Some (PList fs) \<Rightarrow> Inr fs
      | Some (PStr s) \<Rightarrow> Inr (map (\<lambda>c. PStr [c]) s)
      | Some (PDict d) \<Rightarrow> Inr (map (\<lambda>kv. PStr (fst kv)) d)
      | Some _ \<Rightarrow> Inl TypeError)"

definition discover_custom_fields :: "sf_client \<Rightarrow> string \<Rightarrow> error + string list" where
  "discover_custom_fields sf sobject_name =
     (case describe sf sobject_name of
        Inl e \<Rightarrow> Inl e
      | Inr desc \<Rightarrow>
          (case iter_fields desc of
             Inl e \<Rightarrow> Inl e
           | Inr fs \<Rightarrow> scan_fields fs))"

section \<open>Capability prober\<close>

definition no_such_column :: string where
  "no_such_column =
     ''No such column '' @ sq @ ''CurrencyIsoCode'' @ sq @ '' on entity '' @ sq @ ''PricebookEntry'' @ sq"

definition probe_soql :: string where
  "probe_soql = ''SELECT Id, CurrencyIsoCode FROM PricebookEntry LIMIT 1''"

definition detect_multi_currency :: "sf_client \<Rightarrow> error + bool" where
  "detect_multi_currency sf =
     (case query sf probe_soql of
        Inr _ \<Rightarrow> Inr True
      | Inl (MalformedRequest msg) \<Rightarrow>
          if sublist no_such_column msg then Inr False else Inl (MalformedRequest msg)
      | Inl e \<Rightarrow> Inl e)"

section \<open>Query builder\<close>

text \<open>\<open>sep.join(xs)\<close>.\<close>

fun str_join :: "string \<Rightarrow> string list \<Rightarrow> string" where
  "str_join sep [] = []"
| "str_join sep [x] = x"
| "str_join sep (x # y # ys) = x @ sep @ str_join sep (y # ys)"

definition build_all_pricebooks_soql :: string where
  "build_all_pricebooks_soql =
     ''SELECT '' @ str_join '', ''
        [''Id'', ''Name'', ''IsActive'', ''IsStandard'', ''Description'',
         ''CreatedDate'', ''LastModifiedDate'']
      @ '' FROM Pricebook2''"

definition build_flat_pbe_soql ::
  "bool \<Rightarrow> string list \<Rightarrow> string list \<Rightarrow> string option \<Rightarrow> string" where
  "build_flat_pbe_soql include_currency_iso pbe_custom_fields product2_custom_fields pricebook2_id =
     (let fields =
        [''Id'', ''Pricebook2Id'', ''Product2Id'', ''UnitPrice'', ''IsActive'', ''UseStandardPrice'',
         ''CreatedDate'', ''LastModifiedDate'',
         ''Pricebook2.Id'', ''Pricebook2.Name'', ''Pricebook2.IsActive'', ''Pricebook2.IsStandard'',
         ''Pricebook2.Description'', ''Pricebook2.CreatedDate'', ''Pricebook2.LastModifiedDate'',
         ''Product2.Name'', ''Product2.ProductCode'', ''Product2.Family'', ''Product2.IsActive'',
         ''Product2.Description'']
        @ (if include_currency_iso then [''CurrencyIsoCode''] else [])
        @ pbe_custom_fields
        @ map (\<lambda>f. ''Product2.'' @ f) product2_custom_fields;
        soql = ''SELECT '' @ str_join '', '' fields @ '' FROM PricebookEntry''
      in case pricebook2_id of
           None \<Rightarrow> soql
         | Some i \<Rightarrow> if i = [] then soql else soql @ '' WHERE Pricebook2Id = '' @ sq @ i @ sq)"

section \<open>The catalog index\<close>

text \<open>
  A catalog is the dictionary literal that \<open>main\<close> builds for a price book: its keys
  are fixed, and only the list under \<open>"Entries"\<close> is ever changed, by appending.
\<close>

record catalog =
  pb_Id :: pyval
  pb_Name :: pyval
  pb_IsActive :: pyval
  pb_IsStandard :: pyval
  pb_Description :: pyval
  pb_CreatedDate :: pyval
  pb_LastModifiedDate :: pyval
  Entries :: "pydict list"

text \<open>
  Keys of \<open>pricebooks_map\<close>. Two values are the same key when they are equal and hash
  alike: \<open>True\<close>, \<open>1\<close> and \<open>1.0\<close> are one key. Lists and dictionaries are unhashable,
  and using one as a key raises TypeError.
\<close>

datatype pykey = KNone | KNum rat | KStr string

fun key_of :: "pyval \<Rightarrow> pykey option" where
  "key_of PNone = Some KNone"
| "key_of (PBool b) = Some (KNum (if b then 1 else 0))"
| "key_of (PNum n) = Some (KNum n)"
| "key_of (PStr s) = Some (KStr s)"
| "key_of (PList xs) = None"
| "key_of (PDict d) = None"

type_synonym pb_index = "(pykey \<times> catalog) list"

text \<open>\<open>d[k]\<close> on a dictionary, \<open>v[k]\<close> and \<open>v.get(k)\<close> on any value, with a string key.\<close>

definition dict_item :: "pydict \<Rightarrow> string \<Rightarrow> error + pyval" where
  "dict_item d k = (case map_of d k of None \<Rightarrow> Inl KeyError | Some v \<Rightarrow> Inr v)"

definition py_item :: "pyval \<Rightarrow> string \<Rightarrow> error + pyval" where
  "py_item v k = (case v of PDict d \<Rightarrow> dict_item d k | _ \<Rightarrow> Inl TypeError)"

definition py_get :: "pyval \<Rightarrow> string \<Rightarrow> error + pyval" where
  "py_get v k = (case v of PDict d \<Rightarrow> Inr (dict_get d k) | _ \<Rightarrow> Inl AttributeError)"

definition bind_err :: "error + 'a \<Rightarrow> ('a \<Rightarrow> error + 'b) \<Rightarrow> error + 'b" where
  "bind_err x f = (case x of Inl e \<Rightarrow> Inl e | Inr v \<Rightarrow> f v)"

definition safe_rel :: "pydict \<Rightarrow> string \<Rightarrow> string \<Rightarrow> pyval" where
  "safe_rel dct rel_name key =
     (case dict_get dct rel_name of PDict rel \<Rightarrow> dict_get rel key | _ \<Rightarrow> PNone)"

text \<open>The loop that preloads every visible price book, also those without entries.\<close>

definition preloaded_catalog :: "pydict \<Rightarrow> pyval \<Rightarrow> catalog" where
  "preloaded_catalog pb i =
     \<lparr>pb_Id = i, pb_Name = dict_get pb ''Name'', pb_IsActive = dict_get pb ''IsActive'',
      pb_IsStandard = dict_get pb ''IsStandard'', pb_Description = dict_get pb ''Description'',
      pb_CreatedDate = dict_get pb ''CreatedDate'',
      pb_LastModifiedDate = dict_get pb ''LastModifiedDate'', Entries = []\<rparr>"

fun preload :: "pb_index \<Rightarrow> pydict list \<Rightarrow> error + pb_index" where
  "preload m [] = Inr m"
| "preload m (pb # pbs) =
     (case map_of pb ''Id'' of
        None \<Rightarrow> Inl KeyError
      | Some i \<Rightarrow>
          (case key_of i of
             None \<Rightarrow> Inl TypeError
           | Some k \<Rightarrow> preload (AList.update k (preloaded_catalog pb i) m) pbs))"

definition query_pricebooks :: "sf_client \<Rightarrow> error + pb_index" where
  "query_pricebooks sf =
     (case query_all_iter sf build_all_pricebooks_soql of
        (pbs, fault) \<Rightarrow>
          (case preload [] pbs of
             Inl e \<Rightarrow> Inl e
           | Inr m \<Rightarrow> (case fault of Some e \<Rightarrow> Inl e | None \<Rightarrow> Inr m)))"

section \<open>Streaming fan-out writer\<close>

text \<open>
  What the run has found out before the pass: the outcome of the currency probe, the
  custom fields of the entry type, the switch \<open>INCLUDE_PRODUCT2_CUSTOM_FIELDS\<close> and the
  custom fields of the product type.
\<close>

record schema =
  include_currency :: bool
  pbe_custom_fields :: "string list"
  include_product2 :: bool
  product2_custom_fields :: "string list"

text \<open>\<open>xs.insert(i, x)\<close> for \<open>i\<close> within the list.\<close>

definition list_insert :: "nat \<Rightarrow> 'a \<Rightarrow> 'a list \<Rightarrow> 'a list" where
  "list_insert i x xs = take i xs @ [x] @ drop i xs"

definition core_cols :: "string list" where
  "core_cols =
     [''Pricebook.Id'', ''Pricebook.Name'', ''Entry.Id'', ''Entry.Pricebook2Id'', ''Entry.Product2Id'',
      ''Entry.UnitPrice'', ''Entry.IsActive'', ''Entry.UseStandardPrice'', ''Entry.CreatedDate'',
      ''Entry.LastModifiedDate'',
      ''Product.Id'', ''Product.Name'', ''Product.ProductCode'', ''Product.Family'',
      ''Product.IsActive'', ''Product.Description'']"

definition base_cols :: "schema \<Rightarrow> string list" where
  "base_cols sch =
     (if include_currency sch then list_insert 7 ''Entry.CurrencyIsoCode'' core_cols
      else core_cols)"

definition dynamic_cols :: "schema \<Rightarrow> string list" where
  "dynamic_cols sch =
     map (\<lambda>f. ''Entry.'' @ f) (pbe_custom_fields sch)
     @ (if include_product2 sch then map (\<lambda>f. ''Product.'' @ f) (product2_custom_fields sch)
        else [])"

definition header_cols :: "schema \<Rightarrow> string list" where
  "header_cols sch = base_cols sch @ dynamic_cols sch"

text \<open>Steps 1 and 2: the parent identity of a record, and the catalog made for an unseen one.\<close>

definition resolve_pb_id :: "pydict \<Rightarrow> pyval" where
  "resolve_pb_id r = py_or (safe_rel r ''Pricebook2'' ''Id'') (dict_get r ''Pricebook2Id'')"

definition resolve_pb_name :: "pydict \<Rightarrow> pyval" where
  "resolve_pb_name r = safe_rel r ''Pricebook2'' ''Name''"

definition inferred_catalog :: "pydict \<Rightarrow> catalog" where
  "inferred_catalog r =
     \<lparr>pb_Id = resolve_pb_id r, pb_Name = resolve_pb_name r,
      pb_IsActive = safe_rel r ''Pricebook2'' ''IsActive'',
      pb_IsStandard = safe_rel r ''Pricebook2'' ''IsStandard'',
      pb_Description = safe_rel r ''Pricebook2'' ''Description'',
      pb_CreatedDate = safe_rel r ''Pricebook2'' ''CreatedDate'',
      pb_LastModifiedDate = safe_rel r ''Pricebook2'' ''LastModifiedDate'', Entries = []\<rparr>"

definition ensure_catalog :: "pykey \<Rightarrow> pydict \<Rightarrow> pb_index \<Rightarrow> pb_index" where
  "ensure_catalog k r m = (if map_of m k = None then AList.update k (inferred_catalog r) m else m)"

text \<open>Step 3: the entry, a dictionary literal followed by the conditional assignments.\<close>

definition entry_literal :: "pydict \<Rightarrow> pydict" where
  "entry_literal r =
     [(''Id'', dict_get r ''Id''),
      (''Pricebook2Id'', dict_get r ''Pricebook2Id''),
      (''Product2Id'', dict_get r ''Product2Id''),
      (''UnitPrice'', dict_get r ''UnitPrice''),
      (''IsActive'', dict_get r ''IsActive''),
      (''UseStandardPrice'', dict_get r ''UseStandardPrice''),
      (''CreatedDate'', dict_get r ''CreatedDate''),
      (''LastModifiedDate'', dict_get r ''LastModifiedDate''),
      (''Product'', PDict
        [(''Id'', dict_get r ''Product2Id''),
         (''Name'', safe_rel r ''Product2'' ''Name''),
         (''ProductCode'', safe_rel r ''Product2'' ''ProductCode''),
         (''Family'', safe_rel r ''Product2'' ''Family''),
         (''IsActive'', safe_rel r ''Product2'' ''IsActive''),
         (''Description'', safe_rel r ''Product2'' ''Description'')])]"

text \<open>\<open>entry["Product"][fcf] = v\<close>: only a dictionary supports the item assignment.\<close>

definition set_product_field :: "pydict \<Rightarrow> string \<Rightarrow> pyval \<Rightarrow> error + pydict" where
  "set_product_field entry fcf v =
     bind_err (dict_item entry ''Product'')
       (\<lambda>p. case p of
               PDict pd \<Rightarrow> Inr (dict_set entry ''Product'' (PDict (dict_set pd fcf v)))
             | _ \<Rightarrow> Inl TypeError)"

fun set_product_fields :: "pydict \<Rightarrow> pydict \<Rightarrow> string list \<Rightarrow> error + pydict" where
  "set_product_fields r entry [] = Inr entry"
| "set_product_fields r entry (fcf # fcfs) =
     bind_err (set_product_field entry fcf (safe_rel r ''Product2'' fcf))
       (\<lambda>entry'. set_product_fields r entry' fcfs)"

definition build_entry :: "schema \<Rightarrow> pydict \<Rightarrow> error + pydict" where
  "build_entry sch r =
     (let e0 = entry_literal r;
          e1 = (if include_currency sch
                then dict_set e0 ''CurrencyIsoCode'' (dict_get r ''CurrencyIsoCode'') else e0);
          e2 = foldl (\<lambda>e fcf. dict_set e fcf (dict_get r fcf)) e1 (pbe_custom_fields sch)
      in if include_product2 sch then set_product_fields r e2 (product2_custom_fields sch)
         else Inr e2)"

text \<open>
  Step 5: the flat row. A dictionary literal evaluates its items in order and the
  first one that raises ends it.
\<close>

fun dict_literal_from :: "pydict \<Rightarrow> (string \<times> (error + pyval)) list \<Rightarrow> error + pydict" where
  "dict_literal_from d [] = Inr d"
| "dict_literal_from d ((k, x) # kxs) = bind_err x (\<lambda>v. dict_literal_from (dict_set d k v) kxs)"

definition dict_literal :: "(string \<times> (error + pyval)) list \<Rightarrow> error + pydict" where
  "dict_literal kxs = dict_literal_from [] kxs"

definition product_item :: "pydict \<Rightarrow> string \<Rightarrow> error + pyval" where
  "product_item entry k = bind_err (dict_item entry ''Product'') (\<lambda>p. py_item p k)"

definition row_literal :: "pyval \<Rightarrow> pyval \<Rightarrow> pydict \<Rightarrow> error + pydict" where
  "row_literal pb_id pb_name entry =
     dict_literal
       [(''Pricebook.Id'', Inr pb_id),
        (''Pricebook.Name'', Inr pb_name),
        (''Entry.Id'', dict_item entry ''Id''),
        (''Entry.Pricebook2Id'', dict_item entry ''Pricebook2Id''),
        (''Entry.Product2Id'', dict_item entry ''Product2Id''),
        (''Entry.UnitPrice'', dict_item entry ''UnitPrice''),
        (''Entry.IsActive'', dict_item entry ''IsActive''),
        (''Entry.UseStandardPrice'', dict_item entry ''UseStandardPrice''),
        (''Entry.CreatedDate'', dict_item entry ''CreatedDate''),
        (''Entry.LastModifiedDate'', dict_item entry ''LastModifiedDate''),
        (''Product.Id'', product_item entry ''Id''),
        (''Product.Name'', product_item entry ''Name''),
        (''Product.ProductCode'', product_item entry ''ProductCode''),
        (''Product.Family'', product_item entry ''Family''),
        (''Product.IsActive'', product_item entry ''IsActive''),
        (''Product.Description'', product_item entry ''Description'')]"

fun row_product_fields :: "pydict \<Rightarrow> pydict \<Rightarrow> string list \<Rightarrow> error + pydict" where
  "row_product_fields entry row [] = Inr row"
| "row_product_fields entry row (fcf # fcfs) =
     bind_err (bind_err (dict_item entry ''Product'') (\<lambda>p. py_get p fcf))
       (\<lambda>v. row_product_fields entry (dict_set row (''Product.'' @ fcf) v) fcfs)"

definition build_row :: "schema \<Rightarrow> pyval \<Rightarrow> pyval \<Rightarrow> pydict \<Rightarrow> error + pydict" where
  "build_row sch pb_id pb_name entry =
     bind_err (row_literal pb_id pb_name entry)
       (\<lambda>row0.
          let row1 = (if include_currency sch
                      then dict_set row0 ''Entry.CurrencyIsoCode'' (dict_get entry ''CurrencyIsoCode'')
                      else row0);
              row2 = foldl (\<lambda>row fcf. dict_set row (''Entry.'' @ fcf) (dict_get entry fcf)) row1
                       (pbe_custom_fields sch)
          in if include_product2 sch
             then row_product_fields entry row2 (product2_custom_fields sch)
             else Inr row2)"

text \<open>
  \<open>DictWriter.writerow\<close> with \<open>extrasaction="ignore"\<close>: one cell per field name, the
  empty string where the row has no such key.
\<close>

definition dict_to_list :: "string list \<Rightarrow> pydict \<Rightarrow> pyval list" where
  "dict_to_list fieldnames row =
     map (\<lambda>c. case map_of row c of None \<Rightarrow> PStr [] | Some v \<Rightarrow> v) fieldnames"

text \<open>
  The state of the pass: the index, the rows handed to the writer so far, and the
  counter \<open>total_entry_rows\<close>.
\<close>

record pass_state =
  pricebooks_map :: pb_index
  rows_out :: "pyval list list"
  total_entry_rows :: nat

definition append_entry :: "pykey \<Rightarrow> pydict \<Rightarrow> pb_index \<Rightarrow> pb_index" where
  "append_entry k entry m = AList.map_entry k (\<lambda>c. c\<lparr>Entries := Entries c @ [entry]\<rparr>) m"

definition fan_out_step :: "schema \<Rightarrow> pass_state \<Rightarrow> pydict \<Rightarrow> error + pass_state" where
  "fan_out_step sch s r =
     (let pb_id = resolve_pb_id r; pb_name = resolve_pb_name r in
      case key_of pb_id of
        None \<Rightarrow> Inl TypeError
      | Some k \<Rightarrow>
          bind_err (build_entry sch r)
            (\<lambda>entry. bind_err (build_row sch pb_id pb_name entry)
               (\<lambda>row. Inr \<lparr>pricebooks_map = append_entry k entry (ensure_catalog k r (pricebooks_map s)),
                           rows_out = rows_out s @ [dict_to_list (header_cols sch) row],
                           total_entry_rows = total_entry_rows s + 1\<rparr>)))"

text \<open>
  The loop over the records: the state reached, and the exception that ended the loop
  early, if any. The rows of the state are the rows that are in the file by then.
\<close>

fun fan_out :: "schema \<Rightarrow> pass_state \<Rightarrow> pydict list \<Rightarrow> pass_state \<times> error option" where
  "fan_out sch s [] = (s, None)"
| "fan_out sch s (r # rs) =
     (case fan_out_step sch s r of
        Inl e \<Rightarrow> (s, Some e)
      | Inr s' \<Rightarrow> fan_out sch s' rs)"

section \<open>The csv module, as far as the exporter uses it\<close>

text \<open>
  The parts of the Python runtime that are taken as given: the clock, \<open>str(v)\<close> for
  the cells that are neither \<open>None\<close> nor a string, and \<open>str.lower\<close>.
\<close>

record py_env =
  now :: string
  str_of :: "pyval \<Rightarrow> string"
  lower :: "string \<Rightarrow> string"

text \<open>
  Files hold text; the byte-order mark that the \<open>utf-8-sig\<close> codec writes and strips
  again is not part of it. Both writers use the quote character \<open>"\<close>, double an
  embedded quote (\<open>doublequote\<close>) and end a row with a line feed. They differ in the
  delimiter, in the escape character and in quoting every field or only where needed.
  The functions follow \<open>join_append_data\<close> and \<open>csv_writerow\<close> of CPython 3.11: a writer
  with an escape character writes that character escaped by itself, and a carriage
  return or a line feed in a field asks for quotes.
\<close>

definition quotechar :: char where "quotechar = CHR 0x22"
definition backslash :: char where "backslash = CHR 0x5C"
definition LF :: char where "LF = CHR 0x0A"
definition CR :: char where "CR = CHR 0x0D"
definition TAB :: char where "TAB = CHR 0x09"
definition lineterminator :: string where "lineterminator = [LF]"

record dialect =
  delimiter :: char
  escapechar :: "char option"
  quote_all :: bool

text \<open>
  \<open>csv.DictWriter(fcsv, quoting=csv.QUOTE_ALL, escapechar="\\", lineterminator="\n")\<close>,
  \<open>csv.writer(ftsv, delimiter="\t", lineterminator="\n")\<close>.
\<close>

definition csv_dialect :: dialect where
  "csv_dialect = \<lparr>delimiter = CHR '','', escapechar = Some backslash, quote_all = True\<rparr>"

definition tsv_dialect :: dialect where
  "tsv_dialect = \<lparr>delimiter = TAB, escapechar = None, quote_all = False\<rparr>"

text \<open>The characters copied for a field, and whether one of them asks for quotes.\<close>

fun join_append_data :: "dialect \<Rightarrow> string \<Rightarrow> string \<times> bool" where
  "join_append_data dia [] = ([], False)"
| "join_append_data dia (c # cs) =
     (case join_append_data dia cs of
        (out, quoted) \<Rightarrow>
          if c = quotechar then (quotechar # c # out, True)
          else if Some c = escapechar dia then (the (escapechar dia) # c # out, quoted)
          else if c = delimiter dia \<or> c = LF \<or> c = CR \<or> c \<in> set lineterminator
            then (c # out, True)
          else (c # out, quoted))"

definition join_append :: "dialect \<Rightarrow> string \<Rightarrow> string" where
  "join_append dia field =
     (case join_append_data dia field of
        (out, quoted) \<Rightarrow>
          if quote_all dia \<or> quoted then [quotechar] @ out @ [quotechar] else out)"

definition csv_writerow :: "dialect \<Rightarrow> string list \<Rightarrow> string" where
  "csv_writerow dia cells =
     (let rec = str_join [delimiter dia] (map (join_append dia) cells)
      in (if cells \<noteq> [] \<and> rec = [] then [quotechar, quotechar] else rec) @ lineterminator)"

definition cell_str :: "py_env \<Rightarrow> pyval \<Rightarrow> string" where
  "cell_str env v = (case v of PNone \<Rightarrow> [] | PStr s \<Rightarrow> s | _ \<Rightarrow> str_of env v)"

text \<open>The text of the flat file after the header and the given rows have been written.\<close>

definition csv_text :: "py_env \<Rightarrow> string list \<Rightarrow> pyval list list \<Rightarrow> string" where
  "csv_text env fieldnames rows =
     csv_writerow csv_dialect fieldnames
     @ concat (map (\<lambda>row. csv_writerow csv_dialect (map (cell_str env) row)) rows)"

text \<open>
  A file opened with \<open>newline=""\<close> hands out lines that end at a line feed, a carriage
  return or the pair of them, with the line end kept.
\<close>

fun split_lines :: "string \<Rightarrow> string \<Rightarrow> string list" where
  "split_lines line [] = (if line = [] then [] else [line])"
| "split_lines line (c # cs) =
     (if c = LF then (line @ [c]) # split_lines [] cs
      else if c = CR then
        (case cs of
           [] \<Rightarrow> [line @ [c]]
         | c2 # cs2 \<Rightarrow>
             if c2 = LF then (line @ [c, c2]) # split_lines [] cs2
             else (line @ [c]) # split_lines [] cs)
      else split_lines (line @ [c]) cs)"

text \<open>
  \<open>csv.reader(f)\<close> with the default dialect, but for the delimiter: no escape
  character, \<open>doublequote\<close>, not strict. The states and transitions are those of
  \<open>parse_process_char\<close>; the states that only an escape character leads to are left out.
  \<open>None\<close> is the end-of-line signal that follows the characters of each line.
\<close>

datatype parser_state =
    START_RECORD | START_FIELD | IN_FIELD | IN_QUOTED_FIELD | QUOTE_IN_QUOTED_FIELD | EAT_CRNL

record reader =
  state :: parser_state
  field :: string
  row_fields :: "string list"

definition parse_reset :: reader where
  "parse_reset = \<lparr>state = START_RECORD, field = [], row_fields = []\<rparr>"

definition parse_save_field :: "reader \<Rightarrow> reader" where
  "parse_save_field rd = rd\<lparr>row_fields := row_fields rd @ [field rd], field := []\<rparr>"

definition parse_add_char :: "reader \<Rightarrow> char \<Rightarrow> reader" where
  "parse_add_char rd c = rd\<lparr>field := field rd @ [c]\<rparr>"

definition is_newline :: "char option \<Rightarrow> bool" where
  "is_newline c = (c = Some LF \<or> c = Some CR)"

definition after_line_end :: "char option \<Rightarrow> parser_state" where
  "after_line_end c = (if c = None then START_RECORD else EAT_CRNL)"

definition start_field :: "char \<Rightarrow> reader \<Rightarrow> char option \<Rightarrow> reader" where
  "start_field d rd c =
     (if is_newline c \<or> c = None then (parse_save_field rd)\<lparr>state := after_line_end c\<rparr>
      else if c = Some quotechar then rd\<lparr>state := IN_QUOTED_FIELD\<rparr>
      else if c = Some d then (parse_save_field rd)\<lparr>state := START_FIELD\<rparr>
      else (parse_add_char rd (the c))\<lparr>state := IN_FIELD\<rparr>)"

definition parse_process_char :: "char \<Rightarrow> reader \<Rightarrow> char option \<Rightarrow> error + reader" where
  "parse_process_char d rd c =
     (case state rd of
        START_RECORD \<Rightarrow>
          if c = None then Inr rd
          else if is_newline c then Inr (rd\<lparr>state := EAT_CRNL\<rparr>)
          else Inr (start_field d rd c)
      | START_FIELD \<Rightarrow> Inr (start_field d rd c)
      | IN_FIELD \<Rightarrow>
          if is_newline c \<or> c = None then Inr ((parse_save_field rd)\<lparr>state := after_line_end c\<rparr>)
          else if c = Some d then Inr ((parse_save_field rd)\<lparr>state := START_FIELD\<rparr>)
          else Inr (parse_add_char rd (the c))
      | IN_QUOTED_FIELD \<Rightarrow>
          if c = None then Inr rd
          else if c = Some quotechar then Inr (rd\<lparr>state := QUOTE_IN_QUOTED_FIELD\<rparr>)
          else Inr (parse_add_char rd (the c))
      | QUOTE_IN_QUOTED_FIELD \<Rightarrow>
          if c = Some quotechar then Inr ((parse_add_char rd quotechar)\<lparr>state := IN_QUOTED_FIELD\<rparr>)
          else if c = Some d then Inr ((parse_save_field rd)\<lparr>state := START_FIELD\<rparr>)
          else if is_newline c \<or> c = None
            then Inr ((parse_save_field rd)\<lparr>state := after_line_end c\<rparr>)
          else Inr ((parse_add_char rd (the c))\<lparr>state := IN_FIELD\<rparr>)
      | EAT_CRNL \<Rightarrow>
          if is_newline c then Inr rd
          else if c = None then Inr (rd\<lparr>state := START_RECORD\<rparr>)
          else Inl CsvError)"

fun parse_line :: "char \<Rightarrow> reader \<Rightarrow> string \<Rightarrow> error + reader" where
  "parse_line d rd [] = parse_process_char d rd None"
| "parse_line d rd (c # cs) =
     bind_err (parse_process_char d rd (Some c)) (\<lambda>rd'. parse_line d rd' cs)"

text \<open>
  Iterating over the reader: the rows it yields, and the error that ended the iteration,
  if any. A row is complete when a line leaves the parser in \<open>START_RECORD\<close>; when the
  lines run out inside a record, what has been read so far is the last row.
\<close>

fun read_rows :: "char \<Rightarrow> reader \<Rightarrow> string list \<Rightarrow> string list list \<times> error option" where
  "read_rows d rd [] =
     (if field rd \<noteq> [] \<or> state rd = IN_QUOTED_FIELD then ([row_fields (parse_save_field rd)], None)
      else ([], None))"
| "read_rows d rd (l # ls) =
     (case parse_line d rd l of
        Inl e \<Rightarrow> ([], Some e)
      | Inr rd' \<Rightarrow>
          if state rd' = START_RECORD
          then (case read_rows d parse_reset ls of (rows, e) \<Rightarrow> (row_fields rd' # rows, e))
          else read_rows d rd' ls)"

definition csv_reader :: "char \<Rightarrow> string \<Rightarrow> string list list \<times> error option" where
  "csv_reader d text = read_rows d parse_reset (split_lines [] text)"

definition tsv_text :: "string list list \<Rightarrow> string" where
  "tsv_text rows = concat (map (csv_writerow tsv_dialect) rows)"

section \<open>Document finaliser and the run\<close>

text \<open>
  \<open>_pb_sort_key\<close>: standard price books first, then the lower-cased name, a missing
  name counting as the empty string. \<open>.lower()\<close> exists on strings only.
\<close>

definition pb_sort_key :: "py_env \<Rightarrow> catalog \<Rightarrow> error + nat \<times> string" where
  "pb_sort_key env pb =
     (case py_or (pb_Name pb) (PStr []) of
        PStr s \<Rightarrow> Inr (if truthy (pb_IsStandard pb) then 0 else 1, lower env s)
      | _ \<Rightarrow> Inl AttributeError)"

text \<open>
  \<open>sorted(xs, key=f)\<close> computes the key of every element, in order, and then sorts
  stably by the keys; tuples compare lexicographically and strings by code point.
\<close>

fun sort_keys :: "py_env \<Rightarrow> catalog list \<Rightarrow> error + (nat \<times> string) list" where
  "sort_keys env [] = Inr []"
| "sort_keys env (pb # pbs) =
     bind_err (pb_sort_key env pb) (\<lambda>k. bind_err (sort_keys env pbs) (\<lambda>ks. Inr (k # ks)))"

definition sorted_pricebooks :: "py_env \<Rightarrow> catalog list \<Rightarrow> error + catalog list" where
  "sorted_pricebooks env pbs =
     bind_err (sort_keys env pbs) (\<lambda>ks. Inr (map snd (sort_key fst (zip ks pbs))))"

record document =
  exported_at :: string
  pricebook_count :: nat
  total_entry_count :: nat
  multi_currency :: bool
  included_PricebookEntry :: "string list"
  included_Product2 :: "string list"
  pricebooks :: "catalog list"

definition finalize :: "py_env \<Rightarrow> schema \<Rightarrow> pb_index \<Rightarrow> error + document" where
  "finalize env sch m =
     bind_err (sorted_pricebooks env (map snd m))
       (\<lambda>pbs. Inr \<lparr>exported_at = now env,
                   pricebook_count = length pbs,
                   total_entry_count = sum_list (map (\<lambda>pb. length (Entries pb)) pbs),
                   multi_currency = include_currency sch,
                   included_PricebookEntry = pbe_custom_fields sch,
                   included_Product2 = product2_custom_fields sch,
                   pricebooks = pbs\<rparr>)"

text \<open>
  The output directory maps a file name to what the file holds, a text or the document
  (whose JSON text is not spelled out). A name stands for the path \<open>OUT_DIR / name\<close> in
  the form in which \<open>pathlib\<close> keeps it; two names are the same file exactly when they
  are equal, and a file can be opened under every name. The settings are those read from
  the environment, \<open>OUTPUT_JSON_NAME\<close> and \<open>OUTPUT_CSV_NAME\<close> with the defaults
  \<open>pricebooks_export.json\<close> and \<open>pricebooks_export.csv\<close>.
\<close>

datatype content = Text string | Json document

type_synonym files = "string \<Rightarrow> content option"

record config =
  OUTPUT_JSON_NAME :: string
  OUTPUT_CSV_NAME :: string
  PRICEBOOK2_ID :: "string option"
  INCLUDE_PRODUCT2_CUSTOM_FIELDS :: bool

text \<open>
  \<open>PurePath.name\<close>, \<open>PurePath.suffix\<close> and \<open>PurePath.with_suffix\<close>: the suffix is the part
  of the final component from its last dot on, unless that dot is its first or its last
  character.
\<close>

definition path_name :: "string \<Rightarrow> string" where
  "path_name p = rev (takeWhile (\<lambda>c. c \<noteq> CHR ''/'') (rev p))"

definition path_suffix :: "string \<Rightarrow> string" where
  "path_suffix p =
     (let name = path_name p;
          ext = rev (takeWhile (\<lambda>c. c \<noteq> CHR ''.'') (rev name))
      in if CHR ''.'' \<in> set name \<and> ext \<noteq> [] \<and> length ext + 1 < length name
         then CHR ''.'' # ext else [])"

definition with_suffix :: "string \<Rightarrow> string \<Rightarrow> string" where
  "with_suffix p new_suffix =
     (let old_suffix = path_suffix p
      in if old_suffix = [] then p @ new_suffix
         else take (length p - length old_suffix) p @ new_suffix)"

definition out_json :: "config \<Rightarrow> string" where
  "out_json cfg = OUTPUT_JSON_NAME cfg"

definition out_csv :: "config \<Rightarrow> string" where
  "out_csv cfg = OUTPUT_CSV_NAME cfg"

definition tsv_path :: "config \<Rightarrow> string" where
  "tsv_path cfg = with_suffix (out_csv cfg) ''.tsv''"

text \<open>What a reader finds in a file that was opened for reading.\<close>

definition read_text :: "files \<Rightarrow> string \<Rightarrow> string" where
  "read_text fs p = (case fs p of Some (Text t) \<Rightarrow> t | _ \<Rightarrow> [])"

definition discover_schema :: "config \<Rightarrow> sf_client \<Rightarrow> error + schema" where
  "discover_schema cfg sf =
     bind_err (discover_custom_fields sf ''PricebookEntry'')
       (\<lambda>pbe. bind_err (if INCLUDE_PRODUCT2_CUSTOM_FIELDS cfg
                         then discover_custom_fields sf ''Product2'' else Inr [])
          (\<lambda>p2. bind_err (detect_multi_currency sf)
             (\<lambda>cur. Inr \<lparr>include_currency = cur, pbe_custom_fields = pbe,
                          include_product2 = INCLUDE_PRODUCT2_CUSTOM_FIELDS cfg,
                          product2_custom_fields = p2\<rparr>)))"

definition pbe_soql :: "config \<Rightarrow> schema \<Rightarrow> string" where
  "pbe_soql cfg sch =
     build_flat_pbe_soql (include_currency sch) (pbe_custom_fields sch)
       (product2_custom_fields sch) (PRICEBOOK2_ID cfg)"

text \<open>
  The block that holds the flat file open for writing: the header, then the pass over
  the stream. The file keeps what was written when an exception leaves the block.
\<close>

definition fan_out_writer ::
  "py_env \<Rightarrow> config \<Rightarrow> schema \<Rightarrow> pb_index \<Rightarrow> pydict list \<times> error option \<Rightarrow> files
     \<Rightarrow> files \<times> (error + pass_state)" where
  "fan_out_writer env cfg sch m0 stream fs =
     (case fan_out sch \<lparr>pricebooks_map = m0, rows_out = [], total_entry_rows = 0\<rparr> (fst stream) of
        (s, raised) \<Rightarrow>
          let fs1 = fs(out_csv cfg \<mapsto> Text (csv_text env (header_cols sch) (rows_out s)))
          in case raised of
               Some e \<Rightarrow> (fs1, Inl e)
             | None \<Rightarrow>
                 (case snd stream of
                    Some e \<Rightarrow> (fs1, Inl e)
                  | None \<Rightarrow> (fs1, Inr s)))"

text \<open>
  The tab-delimited copy. The flat file is opened for reading and then the file at
  \<open>tsv_path\<close> for writing, which empties it, before the first row is read: when the two
  paths are one file the reader finds nothing.
\<close>

definition derive_tsv :: "config \<Rightarrow> files \<Rightarrow> files \<times> error option" where
  "derive_tsv cfg fs =
     (let opened = fs(tsv_path cfg \<mapsto> Text [])
      in case csv_reader (CHR '','') (read_text opened (out_csv cfg)) of
           (rows, failed) \<Rightarrow> (opened(tsv_path cfg \<mapsto> Text (tsv_text rows)), failed))"

text \<open>The count of the rows of the flat file, read once more.\<close>

definition verified_lines :: "config \<Rightarrow> files \<Rightarrow> error + nat" where
  "verified_lines cfg fs =
     (case csv_reader (CHR '','') (read_text fs (out_csv cfg)) of
        (rows, None) \<Rightarrow> Inr (length rows)
      | (rows, Some e) \<Rightarrow> Inl e)"

text \<open>
  \<open>main\<close> after the login: the files it leaves behind, and either the exception that
  ended it or the number of entries it reports at the end.
\<close>

definition write_outputs ::
  "py_env \<Rightarrow> config \<Rightarrow> schema \<Rightarrow> pb_index \<Rightarrow> pydict list \<times> error option \<Rightarrow> files
     \<Rightarrow> files \<times> (error + nat)" where
  "write_outputs env cfg sch m0 stream fs =
     (case fan_out_writer env cfg sch m0 stream fs of
        (fs1, Inl e) \<Rightarrow> (fs1, Inl e)
      | (fs1, Inr s) \<Rightarrow>
          (case derive_tsv cfg fs1 of
             (fs2, Some e) \<Rightarrow> (fs2, Inl e)
           | (fs2, None) \<Rightarrow>
               (case verified_lines cfg fs2 of
                  Inl e \<Rightarrow> (fs2, Inl e)
                | Inr lines \<Rightarrow>
                    (case finalize env sch (pricebooks_map s) of
                       Inl e \<Rightarrow> (fs2, Inl e)
                     | Inr doc \<Rightarrow> (fs2(out_json cfg \<mapsto> Json doc), Inr (total_entry_rows s))))))"

definition main :: "py_env \<Rightarrow> config \<Rightarrow> sf_client \<Rightarrow> files \<Rightarrow> files \<times> (error + nat)" where
  "main env cfg sf fs =
     (case discover_schema cfg sf of
        Inl e \<Rightarrow> (fs, Inl e)
      | Inr sch \<Rightarrow>
          (case query_pricebooks sf of
             Inl e \<Rightarrow> (fs, Inl e)
           | Inr m0 \<Rightarrow> write_outputs env cfg sch m0 (query_all_iter sf (pbe_soql cfg sch)) fs))"

text \<open>The script: exit status 1 when \<open>main\<close> ends with an exception, 0 otherwise.\<close>

definition run_script :: "py_env \<Rightarrow> config \<Rightarrow> sf_client \<Rightarrow> files \<Rightarrow> files \<times> nat" where
  "run_script env cfg sf fs =
     (case main env cfg sf fs of
        (fs', Inl e) \<Rightarrow> (fs', 1)
      | (fs', Inr n) \<Rightarrow> (fs', 0))"

section \<open>Notions used in the statements, and example inputs\<close>

text \<open>
  A field descriptor as the claim about the schema discoverer reads it: its name, and
  whether it is wanted. A descriptor is well formed when its name is a string or
  missing (or otherwise false), so that \<open>name.endswith\<close> cannot raise.
\<close>

definition field_name :: "pydict \<Rightarrow> string" where
  "field_name fd = (case dict_get fd ''name'' of PStr s \<Rightarrow> s | _ \<Rightarrow> [])"

definition name_ok :: "pydict \<Rightarrow> bool" where
  "name_ok fd = (case dict_get fd ''name'' of PStr s \<Rightarrow> True | v \<Rightarrow> \<not> truthy v)"

definition wanted :: "pydict \<Rightarrow> bool" where
  "wanted fd \<longleftrightarrow>
     suffix ''__c'' (field_name fd) \<and>
     \<not> truthy (dict_get fd ''deprecatedAndHidden'') \<and>
     (map_of fd ''queryable'' = None \<or> truthy (dict_get fd ''queryable''))"

definition sf_absent :: sf_client where
  "sf_absent =
     \<lparr>describe = (\<lambda>_. Inr []),
      query = (\<lambda>_. Inl (MalformedRequest (''Malformed request. '' @ no_such_column))),
      query_all_iter = (\<lambda>_. ([], None))\<rparr>"

definition sf_denied :: sf_client where
  "sf_denied =
     \<lparr>describe = (\<lambda>_. Inr []),
      query = (\<lambda>_. Inl (AuthenticationFailed ''expired'')),
      query_all_iter = (\<lambda>_. ([], None))\<rparr>"

definition fields_example :: "pydict list" where
  "fields_example =
     [[(''name'', PStr ''Id'')],
      [(''name'', PStr ''Tier__c'')],
      [(''name'', PStr ''Old__c''), (''deprecatedAndHidden'', PBool True)],
      [(''name'', PStr ''Calc__c''), (''queryable'', PBool False)],
      [(''name'', PStr ''Region__c''), (''queryable'', PBool True)]]"

definition sf_example :: sf_client where
  "sf_example =
     \<lparr>describe = (\<lambda>_. Inr [(''fields'', PList (map PDict fields_example))]),
      query = (\<lambda>_. Inr []),
      query_all_iter = (\<lambda>_. ([], None))\<rparr>"

definition record_key :: "pydict \<Rightarrow> pykey option" where
  "record_key r = key_of (resolve_pb_id r)"

definition entry_of :: "schema \<Rightarrow> pydict \<Rightarrow> pydict" where
  "entry_of sch r = (case build_entry sch r of Inr e \<Rightarrow> e | Inl _ \<Rightarrow> [])"

definition nested_cell :: "pyval \<Rightarrow> pyval \<Rightarrow> pydict \<Rightarrow> string \<Rightarrow> pyval" where
  "nested_cell pb_id pb_name e col =
     (if col = ''Pricebook.Id'' then pb_id
      else if col = ''Pricebook.Name'' then pb_name
      else if prefix ''Entry.'' col then dict_get e (drop 6 col)
      else if prefix ''Product.'' col
        then (case dict_get e ''Product'' of PDict pd \<Rightarrow> dict_get pd (drop 8 col) | _ \<Rightarrow> PNone)
      else PStr [])"

definition flat_row :: "schema \<Rightarrow> pydict \<Rightarrow> pyval list" where
  "flat_row sch r =
     map (nested_cell (resolve_pb_id r) (resolve_pb_name r) (entry_of sch r)) (header_cols sch)"

definition row_ok :: "pyval \<Rightarrow> pyval \<Rightarrow> pydict \<Rightarrow> pydict \<Rightarrow> bool" where
  "row_ok pb_id pb_name e row \<longleftrightarrow> (\<forall>c v. map_of row c = Some v \<longrightarrow> v = nested_cell pb_id pb_name e c)"

definition items_ok :: "pyval \<Rightarrow> pyval \<Rightarrow> pydict \<Rightarrow> (string \<times> (error + pyval)) list \<Rightarrow> bool" where
  "items_ok pb_id pb_name e kxs \<longleftrightarrow>
     (\<forall>(k, x)\<in>set kxs. \<forall>v. x = Inr v \<longrightarrow> v = nested_cell pb_id pb_name e k)"

definition index_step :: "schema \<Rightarrow> pb_index \<Rightarrow> pydict \<Rightarrow> pb_index" where
  "index_step sch m r =
     (case record_key r of
        None \<Rightarrow> m
      | Some k \<Rightarrow> append_entry k (entry_of sch r) (ensure_catalog k r m))"

definition entries_for :: "schema \<Rightarrow> pykey \<Rightarrow> pydict list \<Rightarrow> pydict list" where
  "entries_for sch k recs = map (entry_of sch) (filter (\<lambda>r. record_key r = Some k) recs)"

definition listing_key :: "pydict \<Rightarrow> pykey option" where
  "listing_key pb = (case map_of pb ''Id'' of None \<Rightarrow> None | Some i \<Rightarrow> key_of i)"

definition fresh_index :: "pb_index \<Rightarrow> bool" where
  "fresh_index m \<longleftrightarrow>
     distinct (map fst m) \<and> (\<forall>(k, c)\<in>set m. key_of (pb_Id c) = Some k \<and> Entries c = [])"

definition name_text :: "catalog \<Rightarrow> string" where
  "name_text pb = (case pb_Name pb of PStr s \<Rightarrow> s | _ \<Rightarrow> [])"

definition sort_key_of :: "py_env \<Rightarrow> catalog \<Rightarrow> nat \<times> string" where
  "sort_key_of env pb = (if truthy (pb_IsStandard pb) then 0 else 1, lower env (name_text pb))"

definition entries_total :: "pb_index \<Rightarrow> nat" where
  "entries_total m = sum_list (map (\<lambda>p. length (Entries (snd p))) m)"

text \<open>
  Example inputs: \<open>str.lower\<close> on ASCII letters, three listed price books, and a stream
  of two records, the second without the embedded parent object and with a parent that
  is not listed.
\<close>

definition ascii_lower :: "char \<Rightarrow> char" where
  "ascii_lower c = (if CHR ''A'' \<le> c \<and> c \<le> CHR ''Z'' then char_of (of_char c + (32::nat)) else c)"

definition env_example :: py_env where
  "env_example = \<lparr>now = ''2024-01-01T00:00:00+00:00'', str_of = (\<lambda>v. ''True''), lower = map ascii_lower\<rparr>"

definition cfg_example :: config where
  "cfg_example =
     \<lparr>OUTPUT_JSON_NAME = ''pricebooks_export.json'', OUTPUT_CSV_NAME = ''pricebooks_export.csv'',
      PRICEBOOK2_ID = None, INCLUDE_PRODUCT2_CUSTOM_FIELDS = True\<rparr>"

definition listing_example :: "pydict list" where
  "listing_example =
     [[(''Id'', PStr ''pbZ''), (''Name'', PStr ''Zeta''), (''IsStandard'', PBool False)],
      [(''Id'', PStr ''pbA''), (''Name'', PStr ''alpha''), (''IsStandard'', PBool False)],
      [(''Id'', PStr ''pbB''), (''Name'', PStr ''Base''), (''IsStandard'', PBool True)]]"

definition rec_embedded :: pydict where
  "rec_embedded =
     [(''Id'', PStr ''e1''), (''Pricebook2Id'', PStr ''pbB''), (''Product2Id'', PStr ''p1''),
      (''Pricebook2'', PDict [(''Id'', PStr ''pbB''), (''Name'', PStr ''Base''), (''IsStandard'', PBool True)]),
      (''Product2'', PDict [(''Name'', PStr ''Widget'')]), (''Tier__c'', PStr ''gold'')]"

definition rec_orphan :: pydict where
  "rec_orphan = [(''Id'', PStr ''e2''), (''Pricebook2Id'', PStr ''pb9''), (''Product2Id'', PStr ''p2'')]"

definition sf_run :: sf_client where
  "sf_run =
     \<lparr>describe = (\<lambda>n. if n = ''PricebookEntry''
                      then Inr [(''fields'', PList [PDict [(''name'', PStr ''Tier__c'')]])] else Inr []),
      query = (\<lambda>_. Inr []),
      query_all_iter = (\<lambda>q. if q = build_all_pricebooks_soql then (listing_example, None)
                             else ([rec_embedded, rec_orphan], None))\<rparr>"

definition fs_empty :: files where
  "fs_empty = (\<lambda>name. None)"

definition entry_wf :: "pydict \<Rightarrow> bool" where
  "entry_wf e \<longleftrightarrow>
     (\<forall>k\<in>set [''Id'', ''Pricebook2Id'', ''Product2Id'', ''UnitPrice'', ''IsActive'',
                ''UseStandardPrice'', ''CreatedDate'', ''LastModifiedDate'']. map_of e k \<noteq> None) \<and>
     (\<exists>pd. map_of e ''Product'' = Some (PDict pd) \<and>
        (\<forall>k\<in>set [''Id'', ''Name'', ''ProductCode'', ''Family'', ''IsActive'', ''Description''].
           map_of pd k \<noteq> None))"

definition sf_fault :: sf_client where
  "sf_fault =
     \<lparr>describe = (\<lambda>n. Inr []),
      query = (\<lambda>_. Inr []),
      query_all_iter = (\<lambda>q. if q = build_all_pricebooks_soql then ([], None)
                             else ([rec_orphan], Some (MalformedRequest ''INVALID_FIELD'')))\<rparr>"

definition sch_plain :: schema where
  "sch_plain = \<lparr>include_currency = True, pbe_custom_fields = [], include_product2 = True,
                product2_custom_fields = []\<rparr>"

definition cfg_restricted :: config where
  "cfg_restricted = cfg_example\<lparr>PRICEBOOK2_ID := Some ''pbB''\<rparr>"

definition sf_restricted :: sf_client where
  "sf_restricted =
     \<lparr>describe = (\<lambda>n. Inr []),
      query = (\<lambda>_. Inr []),
      query_all_iter = (\<lambda>q. if q = build_all_pricebooks_soql then (listing_example, None)
                             else ([rec_embedded], None))\<rparr>"

definition sch_tier :: schema where
  "sch_tier = \<lparr>include_currency = True, pbe_custom_fields = [''Tier__c''], include_product2 = True,
               product2_custom_fields = []\<rparr>"

text \<open>
  What \<open>csv.reader\<close>, which is given no escape character, returns for a cell that the
  writer of the flat file wrote with one: every backslash twice.
\<close>

definition reread :: "string \<Rightarrow> string" where
  "reread s = concat (map (\<lambda>c. if c = backslash then [c, c] else [c]) s)"

text \<open>The rows that \<open>csv.reader\<close> finds in a file, and those after the header row.\<close>

definition file_rows :: "content option \<Rightarrow> string list list" where
  "file_rows c = (case c of Some (Text t) \<Rightarrow> fst (csv_reader (CHR '','') t) | _ \<Rightarrow> [])"

definition data_rows :: "content option \<Rightarrow> string list list" where
  "data_rows c = tl (file_rows c)"

text \<open>The names of the catalogs of the document that a file holds, in their order.\<close>

definition catalog_names :: "content option \<Rightarrow> pyval list" where
  "catalog_names c = (case c of Some (Json doc) \<Rightarrow> map pb_Name (pricebooks doc) | _ \<Rightarrow> [])"

text \<open>A source with the three listed price books and no entries.\<close>

definition sf_listing :: sf_client where
  "sf_listing =
     \<lparr>describe = (\<lambda>n. Inr []),
      query = (\<lambda>_. Inr []),
      query_all_iter = (\<lambda>q. if q = build_all_pricebooks_soql then (listing_example, None)
                             else ([], None))\<rparr>"

text \<open>The cells that the rows of a file have under a column of its header row.\<close>

definition column :: "string \<Rightarrow> string list list \<Rightarrow> string option list" where
  "column name rows = map (\<lambda>row. map_of (zip (hd rows) row) name) (tl rows)"

text \<open>A record of a product whose name holds a backslash, and a source that streams it.\<close>

definition rec_backslash :: pydict where
  "rec_backslash =
     [(''Id'', PStr ''e3''), (''Pricebook2Id'', PStr ''pbB''), (''Product2Id'', PStr ''p3''),
      (''Product2'', PDict [(''Name'', PStr (''A'' @ [backslash] @ ''B''))])]"

definition sf_backslash :: sf_client where
  "sf_backslash =
     \<lparr>describe = (\<lambda>n. Inr []),
      query = (\<lambda>_. Inr []),
      query_all_iter = (\<lambda>q. if q = build_all_pricebooks_soql then (listing_example, None)
                             else ([rec_backslash], None))\<rparr>"

text \<open>
  A configuration whose flat file has a name that already ends in \<open>.tsv\<close>, so that the
  tab-delimited copy is written to the flat file itself.
\<close>

definition cfg_tsv_name :: config where
  "cfg_tsv_name = cfg_example\<lparr>OUTPUT_CSV_NAME := ''export.tsv''\<rparr>"

text \<open>The source of the example run, on a deployment without the currency column.\<close>

definition sf_nocur :: sf_client where
  "sf_nocur = sf_run\<lparr>query := (\<lambda>_. Inl (MalformedRequest (''Malformed request. '' @ no_such_column)))\<rparr>"


section \<open>Properties of the schema discoverer and the capability prober\<close>

lemma keep_field_ok:
  "name_ok fd \<Longrightarrow> keep_field (PDict fd) = Inr (if wanted fd then Some (field_name fd) else None)"
  by (auto simp: keep_field_def name_ok_def wanted_def field_name_def Let_def split: pyval.splits)

lemma scan_fields_ok:
  "\<forall>fd\<in>set fds. name_ok fd \<Longrightarrow>
   scan_fields (map PDict fds) = Inr (map field_name (filter wanted fds))"
  by (induction fds) (simp_all add: keep_field_ok)

text \<open>
  C8. For a describe result whose field descriptors are well formed, the schema
  discoverer returns, in the order of the describe result, exactly the names of the
  descriptors whose name ends in \<open>__c\<close>, that are not flagged deprecated and hidden, and
  whose \<open>queryable\<close> flag is either missing or true.
\<close>

theorem discover_custom_fields_spec:
  assumes "describe sf obj = Inr desc"
    and "map_of desc ''fields'' = Some (PList (map PDict fds))"
    and "\<forall>fd\<in>set fds. name_ok fd"
  shows "discover_custom_fields sf obj = Inr (map field_name (filter wanted fds))"
  using assms by (simp add: discover_custom_fields_def iter_fields_def scan_fields_ok)

theorem discover_custom_fields_spec_witness:
  "discover_custom_fields sf_example ''PricebookEntry'' = Inr [''Tier__c'', ''Region__c'']"
proof -
  have 1: "describe sf_example ''PricebookEntry'' = Inr [(''fields'', PList (map PDict fields_example))]"
    by (simp add: sf_example_def)
  have 2: "map_of [(''fields'', PList (map PDict fields_example))] ''fields''
             = Some (PList (map PDict fields_example))"
    by simp
  have 3: "\<forall>fd\<in>set fields_example. name_ok fd"
    by (simp add: fields_example_def name_ok_def dict_get_def)
  have 4: "map field_name (filter wanted fields_example) = [''Tier__c'', ''Region__c'']"
    by (simp add: fields_example_def wanted_def field_name_def dict_get_def suffix_def)
  from discover_custom_fields_spec[OF 1 2 3] 4 show ?thesis by simp
qed

text \<open>
  C4. The capability probe returns false exactly when the probe query raises a
  malformed-query fault whose message contains the "No such column" signature, returns
  true exactly when the probe query succeeds, and raises again every other fault of the
  probe query.
\<close>

theorem detect_multi_currency_cases:
  "(detect_multi_currency sf = Inr False \<longleftrightarrow>
      (\<exists>msg. query sf probe_soql = Inl (MalformedRequest msg) \<and> sublist no_such_column msg))
   \<and> (detect_multi_currency sf = Inr True \<longleftrightarrow> (\<exists>res. query sf probe_soql = Inr res))
   \<and> (\<forall>e. query sf probe_soql = Inl e \<and>
          \<not> (\<exists>msg. e = MalformedRequest msg \<and> sublist no_such_column msg) \<longrightarrow>
          detect_multi_currency sf = Inl e)"
  by (auto simp: detect_multi_currency_def split: sum.splits error.splits)

theorem detect_multi_currency_cases_witness:
  "detect_multi_currency sf_absent = Inr False \<and>
   detect_multi_currency sf_denied = Inl (AuthenticationFailed ''expired'')"
proof -
  have "sublist no_such_column (''Malformed request. '' @ no_such_column)"
    by (rule sublist_append_leftI)
  then have a: "\<exists>msg. query sf_absent probe_soql = Inl (MalformedRequest msg) \<and>
                  sublist no_such_column msg"
    by (simp add: sf_absent_def)
  have b: "query sf_denied probe_soql = Inl (AuthenticationFailed ''expired'') \<and>
           \<not> (\<exists>msg. AuthenticationFailed ''expired'' = MalformedRequest msg \<and>
                      sublist no_such_column msg)"
    by (simp add: sf_denied_def)
  from a b detect_multi_currency_cases[of sf_absent] detect_multi_currency_cases[of sf_denied]
  show ?thesis by blast
qed

lemma bind_err_Inr: "bind_err x f = Inr y \<longleftrightarrow> (\<exists>v. x = Inr v \<and> f v = Inr y)"
  by (cases x) (simp_all add: bind_err_def)

lemma bind_err_simps [simp]: "bind_err (Inr v) f = f v" "bind_err (Inl e) f = Inl e"
  by (simp_all add: bind_err_def)

lemma dict_item_Inr: "dict_item d k = Inr v \<longleftrightarrow> map_of d k = Some v"
  by (simp add: dict_item_def split: option.splits)

lemma map_of_dict_set: "map_of (dict_set d k v) = (map_of d)(k \<mapsto> v)"
  by (simp add: dict_set_def update_conv')

lemma py_item_Inr: "py_item p k = Inr v \<longleftrightarrow> (\<exists>pd. p = PDict pd \<and> map_of pd k = Some v)"
  by (cases p) (simp_all add: py_item_def dict_item_Inr)

lemma product_item_Inr:
  "product_item e k = Inr v \<longleftrightarrow> (\<exists>pd. map_of e ''Product'' = Some (PDict pd) \<and> map_of pd k = Some v)"
  by (auto simp: product_item_def bind_err_Inr dict_item_Inr py_item_Inr)

lemma nested_cell_Pricebook:
  "nested_cell pb_id pb_name e ''Pricebook.Id'' = pb_id"
  "nested_cell pb_id pb_name e ''Pricebook.Name'' = pb_name"
  by (simp_all add: nested_cell_def)

lemma nested_cell_Entry:
  "nested_cell pb_id pb_name e (CHR ''E'' # CHR ''n'' # CHR ''t'' # CHR ''r'' # CHR ''y'' # CHR ''.'' # f)
     = dict_get e f"
  by (simp add: nested_cell_def)

lemma nested_cell_Product:
  "nested_cell pb_id pb_name e
     (CHR ''P'' # CHR ''r'' # CHR ''o'' # CHR ''d'' # CHR ''u'' # CHR ''c'' # CHR ''t'' # CHR ''.'' # f)
     = (case dict_get e ''Product'' of PDict pd \<Rightarrow> dict_get pd f | _ \<Rightarrow> PNone)"
  by (simp add: nested_cell_def split: pyval.split)

lemma row_ok_set:
  "row_ok pb_id pb_name e row \<Longrightarrow> v = nested_cell pb_id pb_name e k \<Longrightarrow>
   row_ok pb_id pb_name e (dict_set row k v)"
  by (simp add: row_ok_def map_of_dict_set)

lemma dom_dict_set: "fst ` set (dict_set d k v) = insert k (fst ` set d)"
  by (simp add: dict_set_def dom_update)

lemma dict_literal_from_ok:
  "dict_literal_from d kxs = Inr d' \<Longrightarrow> row_ok pb_id pb_name e d \<Longrightarrow> items_ok pb_id pb_name e kxs \<Longrightarrow>
   row_ok pb_id pb_name e d' \<and> fst ` set d' = fst ` set d \<union> fst ` set kxs"
proof (induction kxs arbitrary: d)
  case Nil
  then show ?case by simp
next
  case (Cons kx kxs)
  obtain k x where kx: "kx = (k, x)" by (cases kx)
  from Cons.prems(1) obtain v where x: "x = Inr v"
    and rest: "dict_literal_from (dict_set d k v) kxs = Inr d'"
    by (auto simp: kx bind_err_Inr)
  from Cons.prems(3) have v: "v = nested_cell pb_id pb_name e k" and items: "items_ok pb_id pb_name e kxs"
    by (auto simp: items_ok_def kx x)
  from Cons.IH[OF rest row_ok_set[OF Cons.prems(2) v] items]
  show ?case by (auto simp: dom_dict_set kx)
qed

lemma row_literal_items:
  "items_ok pb_id pb_name e
       [(''Pricebook.Id'', Inr pb_id),
        (''Pricebook.Name'', Inr pb_name),
        (''Entry.Id'', dict_item e ''Id''),
        (''Entry.Pricebook2Id'', dict_item e ''Pricebook2Id''),
        (''Entry.Product2Id'', dict_item e ''Product2Id''),
        (''Entry.UnitPrice'', dict_item e ''UnitPrice''),
        (''Entry.IsActive'', dict_item e ''IsActive''),
        (''Entry.UseStandardPrice'', dict_item e ''UseStandardPrice''),
        (''Entry.CreatedDate'', dict_item e ''CreatedDate''),
        (''Entry.LastModifiedDate'', dict_item e ''LastModifiedDate''),
        (''Product.Id'', product_item e ''Id''),
        (''Product.Name'', product_item e ''Name''),
        (''Product.ProductCode'', product_item e ''ProductCode''),
        (''Product.Family'', product_item e ''Family''),
        (''Product.IsActive'', product_item e ''IsActive''),
        (''Product.Description'', product_item e ''Description'')]"
  unfolding items_ok_def
  by (simp add: nested_cell_Pricebook nested_cell_Entry nested_cell_Product dict_item_Inr
        product_item_Inr)
     (auto simp: dict_get_def)

lemma row_literal_ok:
  assumes "row_literal pb_id pb_name e = Inr row0"
  shows "row_ok pb_id pb_name e row0 \<and> fst ` set row0 = set core_cols"
proof -
  have "row_ok pb_id pb_name e []" by (simp add: row_ok_def)
  from dict_literal_from_ok[OF assms[unfolded row_literal_def dict_literal_def] this row_literal_items]
  show ?thesis by (simp add: core_cols_def)
qed

lemma foldl_entry_ok:
  "row_ok pb_id pb_name e row \<Longrightarrow>
   row_ok pb_id pb_name e (foldl (\<lambda>row fcf. dict_set row (''Entry.'' @ fcf) (dict_get e fcf)) row fs) \<and>
   fst ` set (foldl (\<lambda>row fcf. dict_set row (''Entry.'' @ fcf) (dict_get e fcf)) row fs)
     = fst ` set row \<union> (\<lambda>f. ''Entry.'' @ f) ` set fs"
proof (induction fs arbitrary: row)
  case Nil
  then show ?case by simp
next
  case (Cons f fs)
  have "row_ok pb_id pb_name e (dict_set row (''Entry.'' @ f) (dict_get e f))"
    by (rule row_ok_set[OF Cons.prems]) (simp add: nested_cell_Entry)
  from Cons.IH[OF this] show ?case by (auto simp: dom_dict_set)
qed

lemma py_get_Inr: "py_get p k = Inr v \<longleftrightarrow> (\<exists>pd. p = PDict pd \<and> v = dict_get pd k)"
  by (cases p) (auto simp: py_get_def)

lemma row_product_fields_ok:
  "row_product_fields e row fs = Inr row' \<Longrightarrow> row_ok pb_id pb_name e row \<Longrightarrow>
   row_ok pb_id pb_name e row' \<and> fst ` set row' = fst ` set row \<union> (\<lambda>f. ''Product.'' @ f) ` set fs"
proof (induction fs arbitrary: row)
  case Nil
  then show ?case by simp
next
  case (Cons f fs)
  from Cons.prems(1) obtain pd where pd: "map_of e ''Product'' = Some (PDict pd)"
    and rest: "row_product_fields e (dict_set row (''Product.'' @ f) (dict_get pd f)) fs = Inr row'"
    by (auto simp: bind_err_Inr dict_item_Inr py_get_Inr)
  have "row_ok pb_id pb_name e (dict_set row (''Product.'' @ f) (dict_get pd f))"
    by (rule row_ok_set[OF Cons.prems(2)]) (simp add: nested_cell_Product dict_get_def pd)
  from Cons.IH[OF rest this] show ?case by (auto simp: dom_dict_set)
qed

lemma set_list_insert: "set (list_insert i x xs) = insert x (set xs)"
proof -
  have "set (take i xs) \<union> set (drop i xs) = set xs"
    by (metis append_take_drop_id set_append)
  then show ?thesis by (auto simp: list_insert_def)
qed

lemma set_header_cols:
  "set (header_cols sch) =
     set core_cols \<union> (if include_currency sch then {''Entry.CurrencyIsoCode''} else {})
     \<union> (\<lambda>f. ''Entry.'' @ f) ` set (pbe_custom_fields sch)
     \<union> (if include_product2 sch then (\<lambda>f. ''Product.'' @ f) ` set (product2_custom_fields sch) else {})"
  by (auto simp: header_cols_def base_cols_def dynamic_cols_def set_list_insert)

lemma dict_to_list_ok:
  assumes "row_ok pb_id pb_name e row" and "set cols \<subseteq> fst ` set row"
  shows "dict_to_list cols row = map (nested_cell pb_id pb_name e) cols"
proof -
  have "(case map_of row c of None \<Rightarrow> PStr [] | Some v \<Rightarrow> v) = nested_cell pb_id pb_name e c"
    if "c \<in> set cols" for c
  proof -
    from that assms(2) have "map_of row c \<noteq> None"
      by (auto simp: map_of_eq_None_iff)
    then obtain v where v: "map_of row c = Some v" by auto
    with assms(1) show ?thesis by (simp add: row_ok_def)
  qed
  then show ?thesis by (simp add: dict_to_list_def)
qed

lemma build_row_cells:
  assumes "build_row sch pb_id pb_name e = Inr row"
  shows "dict_to_list (header_cols sch) row = map (nested_cell pb_id pb_name e) (header_cols sch)"
proof -
  from assms obtain row0 where row0: "row_literal pb_id pb_name e = Inr row0" 
    by (auto simp: build_row_def bind_err_Inr)
  define row1 where "row1 = (if include_currency sch
                      then dict_set row0 ''Entry.CurrencyIsoCode'' (dict_get e ''CurrencyIsoCode'')
                      else row0)"
  define row2 where "row2 = foldl (\<lambda>row fcf. dict_set row (''Entry.'' @ fcf) (dict_get e fcf)) row1
                       (pbe_custom_fields sch)"
  from assms row0 have row: "(if include_product2 sch
             then row_product_fields e row2 (product2_custom_fields sch)
             else Inr row2) = Inr row"
    by (auto simp: build_row_def row1_def row2_def Let_def split: if_splits)
  from row_literal_ok[OF row0] have ok0: "row_ok pb_id pb_name e row0"
    and dom0: "fst ` set row0 = set core_cols" by simp_all
  have ok1: "row_ok pb_id pb_name e row1"
    unfolding row1_def using ok0 by (auto intro!: row_ok_set simp: nested_cell_Entry)
  have dom1: "fst ` set row1 = set core_cols \<union> (if include_currency sch then {''Entry.CurrencyIsoCode''} else {})"
    unfolding row1_def using dom0 by (simp add: dom_dict_set)
  from foldl_entry_ok[OF ok1, of "pbe_custom_fields sch"]
  have ok2: "row_ok pb_id pb_name e row2"
    and dom2: "fst ` set row2 = fst ` set row1 \<union> (\<lambda>f. ''Entry.'' @ f) ` set (pbe_custom_fields sch)"
    unfolding row2_def by simp_all
  have "row_ok pb_id pb_name e row \<and> set (header_cols sch) \<subseteq> fst ` set row"
  proof (cases "include_product2 sch")
    case True
    with row have "row_product_fields e row2 (product2_custom_fields sch) = Inr row" by simp
    from row_product_fields_ok[OF this ok2] show ?thesis
      using True dom1 dom2 unfolding set_header_cols by auto
  next
    case False
    with row have "row = row2" by simp
    then show ?thesis using False ok2 dom1 dom2 unfolding set_header_cols by auto
  qed
  then show ?thesis by (simp add: dict_to_list_ok)
qed

lemma fan_out_step_Inr:
  assumes "fan_out_step sch s r = Inr s'"
  shows "record_key r \<noteq> None \<and> build_entry sch r = Inr (entry_of sch r) \<and>
         pricebooks_map s' = index_step sch (pricebooks_map s) r \<and>
         rows_out s' = rows_out s @ [flat_row sch r] \<and>
         total_entry_rows s' = Suc (total_entry_rows s)"
proof -
  from assms obtain k where k: "key_of (resolve_pb_id r) = Some k"
    by (auto simp: fan_out_step_def Let_def split: option.splits)
  with assms obtain e row where e: "build_entry sch r = Inr e"
    and row: "build_row sch (resolve_pb_id r) (resolve_pb_name r) e = Inr row"
    and s': "s' = \<lparr>pricebooks_map = append_entry k e (ensure_catalog k r (pricebooks_map s)),
                  rows_out = rows_out s @ [dict_to_list (header_cols sch) row],
                  total_entry_rows = total_entry_rows s + 1\<rparr>"
    by (auto simp: fan_out_step_def Let_def bind_err_Inr)
  from e have eo: "entry_of sch r = e" by (simp add: entry_of_def)
  from build_row_cells[OF row] have "dict_to_list (header_cols sch) row = flat_row sch r"
    by (simp add: flat_row_def eo)
  with k e eo s' show ?thesis
    by (simp add: record_key_def index_step_def)
qed

lemma fan_out_None:
  "fan_out sch s recs = (s', None) \<Longrightarrow>
   (\<forall>r\<in>set recs. record_key r \<noteq> None \<and> build_entry sch r = Inr (entry_of sch r)) \<and>
   pricebooks_map s' = foldl (index_step sch) (pricebooks_map s) recs \<and>
   rows_out s' = rows_out s @ map (flat_row sch) recs \<and>
   total_entry_rows s' = total_entry_rows s + length recs"
proof (induction recs arbitrary: s)
  case Nil
  then show ?case by simp
next
  case (Cons r recs)
  from Cons.prems obtain s1 where s1: "fan_out_step sch s r = Inr s1"
    and rest: "fan_out sch s1 recs = (s', None)"
    by (auto split: sum.splits)
  from fan_out_step_Inr[OF s1] Cons.IH[OF rest] show ?case by simp
qed

lemma map_of_index_step:
  "map_of (index_step sch m r) k =
     (if record_key r = Some k
      then Some ((case map_of m k of Some c \<Rightarrow> c | None \<Rightarrow> inferred_catalog r)
                   \<lparr>Entries := Entries (case map_of m k of Some c \<Rightarrow> c | None \<Rightarrow> inferred_catalog r)
                                  @ [entry_of sch r]\<rparr>)
      else map_of m k)"
  by (auto simp: index_step_def append_entry_def ensure_catalog_def map_of_map_entry update_conv'
           split: option.splits)

lemma map_of_foldl_index:
  "map_of (foldl (index_step sch) m recs) k =
     (case map_of m k of
        Some c \<Rightarrow> Some (c\<lparr>Entries := Entries c @ entries_for sch k recs\<rparr>)
      | None \<Rightarrow>
          (case find (\<lambda>r. record_key r = Some k) recs of
             None \<Rightarrow> None
           | Some r0 \<Rightarrow> Some ((inferred_catalog r0)\<lparr>Entries := entries_for sch k recs\<rparr>)))"
proof (induction recs arbitrary: m)
  case Nil
  then show ?case by (simp add: entries_for_def split: option.splits)
next
  case (Cons r recs)
  show ?case
    by (simp add: Cons.IH map_of_index_step entries_for_def inferred_catalog_def split: option.splits)
qed

lemma distinct_index_step:
  "distinct (map fst m) \<Longrightarrow> distinct (map fst (index_step sch m r))"
  by (auto simp: index_step_def append_entry_def ensure_catalog_def distinct_map_entry distinct_update
           split: option.splits)

lemma distinct_foldl_index:
  "distinct (map fst m) \<Longrightarrow> distinct (map fst (foldl (index_step sch) m recs))"
  by (induction recs arbitrary: m) (simp_all add: distinct_index_step)

lemma keys_index_step:
  "fst ` set (index_step sch m r) = fst ` set m \<union> set_option (record_key r)"
  by (auto simp: index_step_def append_entry_def ensure_catalog_def dom_map_entry dom_update
           map_of_eq_None_iff split: option.splits)

lemma keys_foldl_index:
  "fst ` set (foldl (index_step sch) m recs) = fst ` set m \<union> (\<Union>r\<in>set recs. set_option (record_key r))"
  by (induction recs arbitrary: m) (auto simp: keys_index_step)

lemma set_update_subset: "(k', c) \<in> set (AList.update k v m) \<Longrightarrow> (k', c) = (k, v) \<or> (k', c) \<in> set m"
  by (induction m) (auto split: if_splits)

lemma preload_Inr:
  "preload m pbs = Inr m' \<Longrightarrow> fresh_index m \<Longrightarrow>
   fresh_index m' \<and> fst ` set m' = fst ` set m \<union> (\<Union>pb\<in>set pbs. set_option (listing_key pb))"
proof (induction pbs arbitrary: m)
  case Nil
  then show ?case by simp
next
  case (Cons pb pbs)
  from Cons.prems(1) obtain i k where i: "map_of pb ''Id'' = Some i" and k: "key_of i = Some k"
    and rest: "preload (AList.update k (preloaded_catalog pb i) m) pbs = Inr m'"
    by (auto split: option.splits)
  have "fresh_index (AList.update k (preloaded_catalog pb i) m)"
    using Cons.prems(2) k
    by (auto simp: fresh_index_def distinct_update preloaded_catalog_def dest!: set_update_subset)
  from Cons.IH[OF rest this] show ?case
    by (auto simp: dom_update listing_key_def i k)
qed

lemma query_pricebooks_Inr:
  assumes "query_pricebooks sf = Inr m0"
  shows "fresh_index m0 \<and>
         fst ` set m0 = (\<Union>pb\<in>set (fst (query_all_iter sf build_all_pricebooks_soql)). set_option (listing_key pb))"
proof -
  obtain pbs fault where q: "query_all_iter sf build_all_pricebooks_soql = (pbs, fault)"
    by (cases "query_all_iter sf build_all_pricebooks_soql")
  with assms have "preload [] pbs = Inr m0"
    by (auto simp: query_pricebooks_def split: sum.splits option.splits)
  from preload_Inr[OF this] show ?thesis by (simp add: fresh_index_def q)
qed

lemma pb_sort_key_Inr: "pb_sort_key env pb = Inr k \<Longrightarrow> k = sort_key_of env pb"
  by (cases "pb_Name pb")
     (auto simp: pb_sort_key_def sort_key_of_def name_text_def py_or_def split: if_splits)

lemma sort_keys_Inr: "sort_keys env pbs = Inr ks \<Longrightarrow> ks = map (sort_key_of env) pbs"
  by (induction pbs arbitrary: ks) (auto simp: bind_err_Inr dest: pb_sort_key_Inr)

lemma insort_key_decorated:
  "\<forall>p\<in>set ys. fst p = f (snd p) \<Longrightarrow>
   map snd (insort_key fst (f x, x) ys) = insort_key f x (map snd ys)"
  by (induction ys) auto

lemma sort_key_decorated:
  "map snd (sort_key fst (zip (map f xs) xs)) = sort_key f xs \<and>
   (\<forall>p\<in>set (sort_key fst (zip (map f xs) xs)). fst p = f (snd p))"
proof (induction xs)
  case Nil
  then show ?case by simp
next
  case (Cons x xs)
  then show ?case by (auto simp: insort_key_decorated set_insort_key)
qed

lemma sorted_pricebooks_Inr:
  "sorted_pricebooks env pbs = Inr out \<Longrightarrow> out = sort_key (sort_key_of env) pbs"
  by (auto simp: sorted_pricebooks_def bind_err_Inr sort_key_decorated dest!: sort_keys_Inr)

lemma finalize_Inr:
  assumes "finalize env sch m = Inr doc"
  shows "pricebooks doc = sort_key (sort_key_of env) (map snd m)"
    and "pricebook_count doc = length (pricebooks doc)"
    and "total_entry_count doc = sum_list (map (\<lambda>pb. length (Entries pb)) (pricebooks doc))"
    and "multi_currency doc = include_currency sch"
  using assms by (auto simp: finalize_def bind_err_Inr dest!: sorted_pricebooks_Inr)

lemma entries_total_update_absent:
  "map_of m k = None \<Longrightarrow> entries_total (AList.update k c m) = entries_total m + length (Entries c)"
  by (induction m) (auto simp: entries_total_def split: if_splits)

lemma entries_total_map_entry:
  "k \<in> fst ` set m \<Longrightarrow>
   entries_total (AList.map_entry k (\<lambda>c. c\<lparr>Entries := Entries c @ [e]\<rparr>) m) = Suc (entries_total m)"
  by (induction m) (auto simp: entries_total_def)

lemma entries_total_index_step:
  "record_key r \<noteq> None \<Longrightarrow> entries_total (index_step sch m r) = Suc (entries_total m)"
proof -
  assume "record_key r \<noteq> None"
  then obtain k where k: "record_key r = Some k" by auto
  have dom: "k \<in> fst ` set (ensure_catalog k r m)"
    by (auto simp: ensure_catalog_def dom_update map_of_eq_None_iff)
  have "entries_total (ensure_catalog k r m) = entries_total m"
    by (simp add: ensure_catalog_def entries_total_update_absent inferred_catalog_def)
  with entries_total_map_entry[OF dom] show ?thesis
    by (simp add: index_step_def k append_entry_def)
qed

lemma entries_total_foldl:
  "\<forall>r\<in>set recs. record_key r \<noteq> None \<Longrightarrow>
   entries_total (foldl (index_step sch) m recs) = entries_total m + length recs"
  by (induction recs arbitrary: m) (simp_all add: entries_total_index_step)

lemma entries_total_fresh: "fresh_index m \<Longrightarrow> entries_total m = 0"
  by (auto simp: fresh_index_def entries_total_def)

lemma sum_list_sort_key:
  fixes g :: "'a \<Rightarrow> nat"
  shows "sum_list (map g (sort_key f xs)) = sum_list (map g xs)"
proof -
  have "sum_mset (mset (map g (sort_key f xs))) = sum_mset (mset (map g xs))" by simp
  then show ?thesis by (simp only: sum_mset_sum_list)
qed

lemma index_entry:
  assumes "fresh_index m0" and "(k, pb) \<in> set (foldl (index_step sch) m0 recs)"
  shows "key_of (pb_Id pb) = Some k \<and> Entries pb = entries_for sch k recs"
proof -
  from assms(1) have "distinct (map fst m0)" by (simp add: fresh_index_def)
  then have "distinct (map fst (foldl (index_step sch) m0 recs))" by (rule distinct_foldl_index)
  with assms(2) have m: "map_of (foldl (index_step sch) m0 recs) k = Some pb" by simp
  show ?thesis
  proof (cases "map_of m0 k")
    case (Some c)
    then have "(k, c) \<in> set m0" by (rule map_of_SomeD)
    with assms(1) have "key_of (pb_Id c) = Some k" "Entries c = []"
      by (auto simp: fresh_index_def)
    with m Some show ?thesis by (auto simp: map_of_foldl_index)
  next
    case None
    with m obtain r0 where r0: "find (\<lambda>r. record_key r = Some k) recs = Some r0"
      and pb: "pb = (inferred_catalog r0)\<lparr>Entries := entries_for sch k recs\<rparr>"
      by (auto simp: map_of_foldl_index split: option.splits)
    from r0 have "record_key r0 = Some k" by (auto simp: find_Some_iff)
    with pb show ?thesis by (simp add: inferred_catalog_def record_key_def)
  qed
qed

lemma main_Inr:
  assumes "main env cfg sf fs = (fs', Inr n)"
  shows "\<exists>sch m0 recs s doc.
    discover_schema cfg sf = Inr sch \<and> query_pricebooks sf = Inr m0 \<and>
    query_all_iter sf (pbe_soql cfg sch) = (recs, None) \<and>
    (\<forall>r\<in>set recs. record_key r \<noteq> None \<and> build_entry sch r = Inr (entry_of sch r)) \<and>
    fan_out_writer env cfg sch m0 (recs, None) fs
      = (fs(out_csv cfg \<mapsto> Text (csv_text env (header_cols sch) (map (flat_row sch) recs))), Inr s) \<and>
    pricebooks_map s = foldl (index_step sch) m0 recs \<and>
    total_entry_rows s = length recs \<and>
    finalize env sch (foldl (index_step sch) m0 recs) = Inr doc \<and>
    n = length recs \<and>
    fs' = (fst (derive_tsv cfg
                  (fs(out_csv cfg \<mapsto> Text (csv_text env (header_cols sch) (map (flat_row sch) recs))))))
            (out_json cfg \<mapsto> Json doc)"
proof -
  from assms obtain sch m0 where sch: "discover_schema cfg sf = Inr sch"
    and m0: "query_pricebooks sf = Inr m0"
    and w: "write_outputs env cfg sch m0 (query_all_iter sf (pbe_soql cfg sch)) fs = (fs', Inr n)"
    by (auto simp: main_def split: sum.splits)
  obtain recs fault where q: "query_all_iter sf (pbe_soql cfg sch) = (recs, fault)"
    by (cases "query_all_iter sf (pbe_soql cfg sch)")
  let ?s0 = "\<lparr>pricebooks_map = m0, rows_out = [], total_entry_rows = 0\<rparr>"
  obtain s raised where f: "fan_out sch ?s0 recs = (s, raised)"
    by (cases "fan_out sch ?s0 recs")
  define fs1 where "fs1 = fs(out_csv cfg \<mapsto> Text (csv_text env (header_cols sch) (rows_out s)))"
  have fw: "fan_out_writer env cfg sch m0 (recs, fault) fs =
              (fs1, case raised of Some e \<Rightarrow> Inl e
                    | None \<Rightarrow> (case fault of Some e \<Rightarrow> Inl e | None \<Rightarrow> Inr s))"
    by (simp add: fan_out_writer_def f fs1_def Let_def split: option.splits)
  from w have none: "raised = None" "fault = None"
    unfolding write_outputs_def q fw by (auto split: option.splits)
  have fw': "fan_out_writer env cfg sch m0 (recs, None) fs = (fs1, Inr s)"
    using fw by (simp add: none)
  obtain fs2 failed where d: "derive_tsv cfg fs1 = (fs2, failed)"
    by (cases "derive_tsv cfg fs1")
  from w obtain doc where doc: "finalize env sch (pricebooks_map s) = Inr doc"
    and fs': "fs' = fs2(out_json cfg \<mapsto> Json doc)"
    and n: "n = total_entry_rows s"
    using d by (auto simp: write_outputs_def q none fw' split: option.splits sum.splits)
  from fan_out_None[OF f[unfolded none]]
  have pass: "\<forall>r\<in>set recs. record_key r \<noteq> None \<and> build_entry sch r = Inr (entry_of sch r)"
    "pricebooks_map s = foldl (index_step sch) m0 recs"
    "rows_out s = map (flat_row sch) recs"
    "total_entry_rows s = length recs"
    by simp_all
  have fs2: "fs2 = fst (derive_tsv cfg fs1)" by (simp add: d)
  show ?thesis
    using sch m0 q none pass fw' doc n fs' fs2 unfolding fs1_def
    by (intro exI[of _ sch] exI[of _ m0] exI[of _ recs] exI[of _ s] exI[of _ doc]) simp
qed

lemma doc_catalogs:
  assumes fresh: "fresh_index m0"
    and fin: "finalize env sch (foldl (index_step sch) m0 recs) = Inr doc"
  shows "pricebooks doc = sort_key (sort_key_of env) (map snd (foldl (index_step sch) m0 recs))"
    and "distinct (map (\<lambda>pb. key_of (pb_Id pb)) (pricebooks doc))"
    and "\<forall>pb\<in>set (pricebooks doc). \<exists>k. key_of (pb_Id pb) = Some k \<and>
            (k, pb) \<in> set (foldl (index_step sch) m0 recs) \<and> Entries pb = entries_for sch k recs"
    and "(\<lambda>pb. key_of (pb_Id pb)) ` set (pricebooks doc) = Some ` fst ` set (foldl (index_step sch) m0 recs)"
proof -
  let ?m = "foldl (index_step sch) m0 recs"
  show pbs: "pricebooks doc = sort_key (sort_key_of env) (map snd ?m)"
    by (rule finalize_Inr(1)[OF fin])
  have ent: "key_of (pb_Id pb) = Some k \<and> Entries pb = entries_for sch k recs" if "(k, pb) \<in> set ?m" for k pb
    using index_entry[OF fresh that] .
  then have keys: "map (\<lambda>pb. key_of (pb_Id pb)) (map snd ?m) = map Some (map fst ?m)"
    by auto
  have "distinct (map fst ?m)"
    using fresh by (auto simp: fresh_index_def intro: distinct_foldl_index)
  then have "distinct (map (\<lambda>pb. key_of (pb_Id pb)) (map snd ?m))"
    unfolding keys by (auto simp: distinct_map inj_on_def)
  moreover have "mset (map (\<lambda>pb. key_of (pb_Id pb)) (pricebooks doc))
        = mset (map (\<lambda>pb. key_of (pb_Id pb)) (map snd ?m))"
    unfolding pbs by (simp only: mset_map mset_sort)
  ultimately show "distinct (map (\<lambda>pb. key_of (pb_Id pb)) (pricebooks doc))"
    by (metis mset_eq_imp_distinct_iff)
  show "\<forall>pb\<in>set (pricebooks doc). \<exists>k. key_of (pb_Id pb) = Some k \<and>
            (k, pb) \<in> set ?m \<and> Entries pb = entries_for sch k recs"
    unfolding pbs using ent by auto
  have "(\<lambda>pb. key_of (pb_Id pb)) ` set (pricebooks doc) = set (map (\<lambda>pb. key_of (pb_Id pb)) (map snd ?m))"
    unfolding pbs by auto
  also have "\<dots> = Some ` fst ` set ?m"
    unfolding keys by auto
  finally show "(\<lambda>pb. key_of (pb_Id pb)) ` set (pricebooks doc) = Some ` fst ` set ?m" .
qed

lemma main_example: "snd (main env_example cfg_example sf_run fs_empty) = Inr 2"
  by code_simp

lemma main_example_pair:
  "main env_example cfg_example sf_run fs_empty = (fst (main env_example cfg_example sf_run fs_empty), Inr 2)"
  using main_example by (simp add: prod_eq_iff)

lemma no_filter_in_catalog_query: "\<not> sublist ''WHERE'' build_all_pricebooks_soql"
  by code_simp

lemma preload_listing_keys:
  "preload m pbs = Inr m' \<Longrightarrow> \<forall>pb\<in>set pbs. listing_key pb \<noteq> None"
proof (induction pbs arbitrary: m)
  case Nil
  then show ?case by simp
next
  case (Cons pb pbs)
  from Cons.prems obtain i k where i: "map_of pb ''Id'' = Some i" and k: "key_of i = Some k"
    and rest: "preload (AList.update k (preloaded_catalog pb i) m) pbs = Inr m'"
    by (auto split: option.splits)
  from Cons.IH[OF rest] show ?case by (simp add: listing_key_def i k)
qed

lemma query_pricebooks_listing_keys:
  assumes "query_pricebooks sf = Inr m0"
  shows "\<forall>pb\<in>set (fst (query_all_iter sf build_all_pricebooks_soql)). listing_key pb \<noteq> None"
proof -
  obtain pbs fault where q: "query_all_iter sf build_all_pricebooks_soql = (pbs, fault)"
    by (cases "query_all_iter sf build_all_pricebooks_soql")
  with assms have "preload [] pbs = Inr m0"
    by (auto simp: query_pricebooks_def split: sum.splits option.splits)
  from preload_listing_keys[OF this] show ?thesis by (simp add: q)
qed

lemma sorted_doc:
  "finalize env sch m = Inr doc \<Longrightarrow> sorted (map (sort_key_of env) (pricebooks doc))"
  by (simp add: finalize_Inr(1))

lemma entry_literal_wf: "entry_wf (entry_literal r)"
  by (simp add: entry_wf_def entry_literal_def)

lemma dict_set_wf: "entry_wf e \<Longrightarrow> k \<noteq> ''Product'' \<Longrightarrow> entry_wf (dict_set e k v)"
  by (auto simp: entry_wf_def map_of_dict_set)

lemma foldl_dict_set_wf:
  "entry_wf e \<Longrightarrow> ''Product'' \<notin> set fs \<Longrightarrow> entry_wf (foldl (\<lambda>e fcf. dict_set e fcf (g fcf)) e fs)"
  by (induction fs arbitrary: e) (auto simp: dict_set_wf)

lemma set_product_field_wf:
  "entry_wf e \<Longrightarrow> \<exists>e'. set_product_field e f v = Inr e' \<and> entry_wf e'"
  by (auto simp: entry_wf_def set_product_field_def dict_item_def map_of_dict_set)

lemma set_product_fields_wf:
  "entry_wf e \<Longrightarrow> \<exists>e'. set_product_fields r e fs = Inr e' \<and> entry_wf e'"
proof (induction fs arbitrary: e)
  case Nil
  then show ?case by simp
next
  case (Cons f fs)
  from set_product_field_wf[OF Cons.prems] obtain e1
    where e1: "set_product_field e f (safe_rel r ''Product2'' f) = Inr e1" "entry_wf e1" by blast
  from Cons.IH[OF e1(2)] e1(1) show ?case by simp
qed

lemma build_entry_total:
  assumes "''Product'' \<notin> set (pbe_custom_fields sch)"
  shows "\<exists>e. build_entry sch r = Inr e \<and> entry_wf e"
proof -
  define e1 where "e1 = (if include_currency sch
                then dict_set (entry_literal r) ''CurrencyIsoCode'' (dict_get r ''CurrencyIsoCode'')
                else entry_literal r)"
  define e2 where "e2 = foldl (\<lambda>e fcf. dict_set e fcf (dict_get r fcf)) e1 (pbe_custom_fields sch)"
  have "entry_wf e1" by (simp add: e1_def entry_literal_wf dict_set_wf)
  then have wf2: "entry_wf e2" unfolding e2_def using assms by (rule foldl_dict_set_wf)
  have "build_entry sch r = (if include_product2 sch
          then set_product_fields r e2 (product2_custom_fields sch) else Inr e2)"
    by (simp add: build_entry_def e1_def e2_def Let_def)
  with wf2 set_product_fields_wf[OF wf2] show ?thesis by auto
qed

lemma dict_literal_from_total:
  "\<forall>kx\<in>set kxs. \<exists>v. snd kx = Inr v \<Longrightarrow> \<exists>d'. dict_literal_from d kxs = Inr d'"
proof (induction kxs arbitrary: d)
  case Nil
  then show ?case by simp
next
  case (Cons kx kxs)
  obtain k x where kx: "kx = (k, x)" by (cases kx)
  with Cons.prems obtain v where "x = Inr v" by auto
  with Cons.IH[of "dict_set d k v"] Cons.prems kx show ?case by simp
qed

lemma row_literal_total:
  assumes "entry_wf e"
  shows "\<exists>row. row_literal pb_id pb_name e = Inr row"
proof -
  from assms obtain pd where pd: "map_of e ''Product'' = Some (PDict pd)"
    and pk: "\<forall>k\<in>set [''Id'', ''Name'', ''ProductCode'', ''Family'', ''IsActive'', ''Description''].
           map_of pd k \<noteq> None"
    by (auto simp: entry_wf_def)
  have p: "\<exists>v. product_item e k = Inr v" if "map_of pd k \<noteq> None" for k
    using that pd by (auto simp: product_item_def dict_item_def py_item_def)
  have i: "\<exists>v. dict_item e k = Inr v" if "map_of e k \<noteq> None" for k
    using that by (auto simp: dict_item_def)
  show ?thesis
    unfolding row_literal_def dict_literal_def
    by (rule dict_literal_from_total) (use assms pk in \<open>auto simp: entry_wf_def intro!: p i\<close>)
qed

lemma row_product_fields_total:
  "map_of e ''Product'' = Some (PDict pd) \<Longrightarrow> \<exists>row'. row_product_fields e row fs = Inr row'"
  by (induction fs arbitrary: row) (simp_all add: dict_item_def py_get_def)

lemma build_row_total:
  assumes "entry_wf e"
  shows "\<exists>row. build_row sch pb_id pb_name e = Inr row"
proof -
  from row_literal_total[OF assms] obtain row0 where r0: "row_literal pb_id pb_name e = Inr row0" by blast
  from assms obtain pd where "map_of e ''Product'' = Some (PDict pd)" by (auto simp: entry_wf_def)
  from row_product_fields_total[OF this] r0 show ?thesis
    by (simp add: build_row_def Let_def)
qed

lemma fan_out_step_total:
  assumes "''Product'' \<notin> set (pbe_custom_fields sch)" and "record_key r \<noteq> None"
  shows "\<exists>s'. fan_out_step sch s r = Inr s'"
proof -
  from assms(2) obtain k where k: "key_of (resolve_pb_id r) = Some k" by (auto simp: record_key_def)
  from build_entry_total[OF assms(1)] obtain e where e: "build_entry sch r = Inr e" "entry_wf e" by blast
  from build_row_total[OF e(2)] obtain row
    where "build_row sch (resolve_pb_id r) (resolve_pb_name r) e = Inr row" by blast
  with k e(1) show ?thesis by (simp add: fan_out_step_def Let_def)
qed

lemma fan_out_total:
  assumes "''Product'' \<notin> set (pbe_custom_fields sch)"
  shows "\<forall>r\<in>set recs. record_key r \<noteq> None \<Longrightarrow> \<exists>s'. fan_out sch s recs = (s', None)"
proof (induction recs arbitrary: s)
  case Nil
  then show ?case by simp
next
  case (Cons r recs)
  from fan_out_step_total[OF assms, of r s] Cons.prems obtain s1 where "fan_out_step sch s r = Inr s1" by auto
  with Cons.IH[of s1] Cons.prems show ?case by simp
qed

lemma keep_field_suffix: "keep_field f = Inr (Some n) \<Longrightarrow> suffix ''__c'' n"
  by (auto simp: keep_field_def Let_def split: pyval.splits if_splits)

lemma scan_fields_suffix: "scan_fields fs = Inr ns \<Longrightarrow> \<forall>n\<in>set ns. suffix ''__c'' n"
proof (induction fs arbitrary: ns)
  case Nil
  then show ?case by simp
next
  case (Cons f fs)
  from Cons.prems obtain k ns' where k: "keep_field f = Inr k" and ns': "scan_fields fs = Inr ns'"
    and ns: "ns = (case k of None \<Rightarrow> ns' | Some n \<Rightarrow> n # ns')"
    by (auto split: sum.splits)
  from Cons.IH[OF ns'] keep_field_suffix k ns show ?case by (cases k) auto
qed

lemma discover_custom_fields_suffix:
  "discover_custom_fields sf obj = Inr ns \<Longrightarrow> \<forall>n\<in>set ns. suffix ''__c'' n"
  by (auto simp: discover_custom_fields_def split: sum.splits dest!: scan_fields_suffix)

lemma discover_schema_suffix:
  assumes "discover_schema cfg sf = Inr sch"
  shows "\<forall>n\<in>set (pbe_custom_fields sch) \<union> set (product2_custom_fields sch). suffix ''__c'' n"
proof -
  from assms obtain pbe p2 cur where pbe: "discover_custom_fields sf ''PricebookEntry'' = Inr pbe"
    and p2: "(if INCLUDE_PRODUCT2_CUSTOM_FIELDS cfg
                         then discover_custom_fields sf ''Product2'' else Inr []) = Inr p2"
    and sch: "sch = \<lparr>include_currency = cur, pbe_custom_fields = pbe,
                          include_product2 = INCLUDE_PRODUCT2_CUSTOM_FIELDS cfg,
                          product2_custom_fields = p2\<rparr>"
    by (auto simp: discover_schema_def bind_err_Inr)
  from p2 have "\<forall>n\<in>set p2. suffix ''__c'' n"
    by (auto split: if_splits dest!: discover_custom_fields_suffix)
  with discover_custom_fields_suffix[OF pbe] sch show ?thesis by auto
qed

lemma not_custom_names:
  "\<not> suffix ''__c'' ''Product''" "\<not> suffix ''__c'' ''CurrencyIsoCode''"
  by (simp_all add: suffix_to_prefix)

lemma discover_schema_no_Product:
  "discover_schema cfg sf = Inr sch \<Longrightarrow> ''Product'' \<notin> set (pbe_custom_fields sch)"
  using discover_schema_suffix[of cfg sf sch] not_custom_names(1) by blast

lemma filter_distinct_key:
  "distinct (map g xs) \<Longrightarrow> x \<in> set xs \<Longrightarrow> filter (\<lambda>y. g y = g x) xs = [x]"
proof (induction xs)
  case Nil
  then show ?case by simp
next
  case (Cons a xs)
  show ?case
  proof (cases "a = x")
    case True
    with Cons.prems(1) have "g x \<notin> g ` set xs" by simp
    then have "\<forall>y\<in>set xs. g y \<noteq> g x" by (metis imageI)
    then have "filter (\<lambda>y. g y = g x) xs = []" by (simp add: filter_empty_conv)
    with True show ?thesis by simp
  next
    case False
    with Cons.prems have "x \<in> set xs" "g a \<noteq> g x" by auto
    with Cons.IH Cons.prems(1) show ?thesis by simp
  qed
qed

text \<open>
  C5. If the record stream raises a malformed-query fault after yielding records (each
  of them with a hashable parent identity, so that the loop gets as far as the fault),
  then \<open>main\<close> ends with that very fault, the script exits with status 1, the flat file
  is left holding the header and the rows of the records yielded before the fault, and
  no other file is touched: neither the tab-delimited file nor the document is written,
  and no file holds a document that it did not hold before.
\<close>

theorem stream_fault_propagates:
  assumes sch: "discover_schema cfg sf = Inr sch"
    and m0: "query_pricebooks sf = Inr m0"
    and q: "query_all_iter sf (pbe_soql cfg sch) = (recs, Some (MalformedRequest msg))"
    and keys: "\<forall>r\<in>set recs. record_key r \<noteq> None"
  shows "main env cfg sf fs =
           (fs(out_csv cfg \<mapsto> Text (csv_text env (header_cols sch) (map (flat_row sch) recs))),
            Inl (MalformedRequest msg)) \<and>
         snd (run_script env cfg sf fs) = 1 \<and>
         (\<forall>p. p \<noteq> out_csv cfg \<longrightarrow> fst (run_script env cfg sf fs) p = fs p) \<and>
         (\<forall>p doc. fst (run_script env cfg sf fs) p = Some (Json doc) \<longrightarrow> fs p = Some (Json doc)) \<and>
         fst (run_script env cfg sf fs) (out_csv cfg)
           = Some (Text (csv_text env (header_cols sch) (map (flat_row sch) recs)))"
proof -
  let ?s0 = "\<lparr>pricebooks_map = m0, rows_out = [], total_entry_rows = 0\<rparr>"
  from fan_out_total[OF discover_schema_no_Product[OF sch] keys, of ?s0]
  obtain s' where f: "fan_out sch ?s0 recs = (s', None)" by blast
  from fan_out_None[OF f] have rows: "rows_out s' = map (flat_row sch) recs" by simp
  have m: "main env cfg sf fs =
           (fs(out_csv cfg \<mapsto> Text (csv_text env (header_cols sch) (map (flat_row sch) recs))),
            Inl (MalformedRequest msg))"
    by (simp add: main_def sch m0 q write_outputs_def fan_out_writer_def f rows Let_def)
  then show ?thesis by (auto simp: run_script_def)
qed

theorem stream_fault_propagates_witness:
  "snd (run_script env_example cfg_example sf_fault fs_empty) = 1 \<and>
   fst (run_script env_example cfg_example sf_fault fs_empty) ''pricebooks_export.json'' = None \<and>
   fst (run_script env_example cfg_example sf_fault fs_empty) ''pricebooks_export.tsv'' = None \<and>
   fst (run_script env_example cfg_example sf_fault fs_empty) ''pricebooks_export.csv''
     = Some (Text (csv_text env_example (header_cols sch_plain) [flat_row sch_plain rec_orphan]))"
proof -
  have 1: "discover_schema cfg_example sf_fault = Inr sch_plain" by code_simp
  have 2: "query_pricebooks sf_fault = Inr []" by code_simp
  have 3: "query_all_iter sf_fault (pbe_soql cfg_example sch_plain)
             = ([rec_orphan], Some (MalformedRequest ''INVALID_FIELD''))" by code_simp
  have 4: "\<forall>r\<in>set [rec_orphan]. record_key r \<noteq> None" by code_simp
  have 5: "out_csv cfg_example = ''pricebooks_export.csv''"
    by (simp add: out_csv_def cfg_example_def)
  from stream_fault_propagates[OF 1 2 3 4, of env_example fs_empty] show ?thesis
    unfolding 5 by (simp add: fs_empty_def)
qed

lemma pbe_soql_restricted:
  "PRICEBOOK2_ID cfg = Some pid \<Longrightarrow> pid \<noteq> [] \<Longrightarrow>
   pbe_soql cfg sch = pbe_soql (cfg\<lparr>PRICEBOOK2_ID := None\<rparr>) sch @ '' WHERE Pricebook2Id = '' @ sq @ pid @ sq"
  by (simp add: pbe_soql_def build_flat_pbe_soql_def Let_def)

lemma main_restricted: "snd (main env_example cfg_restricted sf_restricted fs_empty) = Inr 1"
  by code_simp

text \<open>
  C10. With a single-catalog restriction configured, the run that completes has sent the
  entry query with the equality filter on the parent identity appended, while the catalog
  query carries no filter; the document has a catalog for every price book of the
  catalog listing; a catalog that no streamed record resolves to has an empty entry
  list; and \<open>pricebook_count\<close> is the number of all catalogs of the document, that is
  the number of distinct identities among the listing and the streamed records.
\<close>

theorem restriction_filters_entry_query_only:
  assumes run: "main env cfg sf fs = (fs', Inr n)"
    and pid: "PRICEBOOK2_ID cfg = Some pid" "pid \<noteq> []"
  shows "\<exists>sch recs doc.
           discover_schema cfg sf = Inr sch \<and>
           pbe_soql cfg sch
             = pbe_soql (cfg\<lparr>PRICEBOOK2_ID := None\<rparr>) sch @ '' WHERE Pricebook2Id = '' @ sq @ pid @ sq \<and>
           \<not> sublist ''WHERE'' build_all_pricebooks_soql \<and>
           query_all_iter sf (pbe_soql cfg sch) = (recs, None) \<and>
           fs' (out_json cfg) = Some (Json doc) \<and>
           (\<forall>pb\<in>set (fst (query_all_iter sf build_all_pricebooks_soql)).
              \<exists>c\<in>set (pricebooks doc). key_of (pb_Id c) = listing_key pb) \<and>
           (\<forall>c\<in>set (pricebooks doc).
              (\<forall>r\<in>set recs. record_key r \<noteq> key_of (pb_Id c)) \<longrightarrow> Entries c = []) \<and>
           pricebook_count doc = length (pricebooks doc) \<and>
           pricebook_count doc
             = card ((\<Union>pb\<in>set (fst (query_all_iter sf build_all_pricebooks_soql)). set_option (listing_key pb))
                     \<union> (\<Union>r\<in>set recs. set_option (record_key r)))"
proof -
  from main_Inr[OF run] obtain sch m0 recs doc where
    sch: "discover_schema cfg sf = Inr sch" and m0: "query_pricebooks sf = Inr m0"
    and q: "query_all_iter sf (pbe_soql cfg sch) = (recs, None)"
    and fin: "finalize env sch (foldl (index_step sch) m0 recs) = Inr doc"
    and fs': "fs' (out_json cfg) = Some (Json doc)"
    by force
  let ?listing = "fst (query_all_iter sf build_all_pricebooks_soql)"
  let ?m = "foldl (index_step sch) m0 recs"
  from query_pricebooks_Inr[OF m0] have fresh: "fresh_index m0"
    and dom0: "fst ` set m0 = (\<Union>pb\<in>set ?listing. set_option (listing_key pb))" by simp_all
  note d = doc_catalogs[OF fresh fin]
  have domF: "fst ` set ?m = (\<Union>pb\<in>set ?listing. set_option (listing_key pb))
                \<union> (\<Union>r\<in>set recs. set_option (record_key r))"
    by (simp add: keys_foldl_index dom0)
  have listed: "\<exists>c\<in>set (pricebooks doc). key_of (pb_Id c) = listing_key pb" if "pb \<in> set ?listing" for pb
  proof -
    from query_pricebooks_listing_keys[OF m0] that obtain k where k: "listing_key pb = Some k" by auto
    with that have "k \<in> fst ` set ?m" unfolding domF by auto
    then have "Some k \<in> (\<lambda>pb. key_of (pb_Id pb)) ` set (pricebooks doc)" unfolding d(4) by simp
    with k show ?thesis by auto
  qed
  have empty: "Entries c = []" if "c \<in> set (pricebooks doc)" "\<forall>r\<in>set recs. record_key r \<noteq> key_of (pb_Id c)" for c
  proof -
    from d(3) that(1) obtain k where "key_of (pb_Id c) = Some k" "Entries c = entries_for sch k recs" by blast
    with that(2) show ?thesis by (simp add: entries_for_def filter_empty_conv)
  qed
  have "distinct (map fst ?m)"
    using fresh by (auto simp: fresh_index_def intro: distinct_foldl_index)
  then have "card (fst ` set ?m) = length ?m"
    by (metis distinct_card length_map set_map)
  moreover have "length (pricebooks doc) = length ?m" unfolding d(1) by simp
  ultimately have count: "length (pricebooks doc)
      = card ((\<Union>pb\<in>set ?listing. set_option (listing_key pb)) \<union> (\<Union>r\<in>set recs. set_option (record_key r)))"
    unfolding domF by simp
  from sch pbe_soql_restricted[OF pid] no_filter_in_catalog_query q fs' listed empty
    finalize_Inr(2)[OF fin] count
  show ?thesis by auto
qed

theorem restriction_filters_entry_query_only_witness:
  "snd (main env_example cfg_restricted sf_restricted fs_empty) = Inr 1 \<and>
   (\<exists>doc. fst (main env_example cfg_restricted sf_restricted fs_empty) ''pricebooks_export.json''
             = Some (Json doc) \<and>
      (\<forall>pb\<in>set listing_example. \<exists>c\<in>set (pricebooks doc). key_of (pb_Id c) = listing_key pb))"
proof -
  have h: "main env_example cfg_restricted sf_restricted fs_empty
             = (fst (main env_example cfg_restricted sf_restricted fs_empty), Inr 1)"
    using main_restricted by (simp add: prod_eq_iff)
  have p: "PRICEBOOK2_ID cfg_restricted = Some ''pbB''" "''pbB'' \<noteq> []"
    by (simp_all add: cfg_restricted_def)
  have l: "fst (query_all_iter sf_restricted build_all_pricebooks_soql) = listing_example"
    by (simp add: sf_restricted_def)
  have j: "out_json cfg_restricted = ''pricebooks_export.json''"
    by (simp add: out_json_def cfg_restricted_def cfg_example_def)
  from restriction_filters_entry_query_only[OF h p] main_restricted show ?thesis
    unfolding l j by auto
qed

lemma find_first_match:
  "\<forall>x\<in>set pre. \<not> P x \<Longrightarrow> P r \<Longrightarrow> find P (pre @ r # post) = Some r"
  by (induction pre) auto

lemma resolve_pb_id_absent:
  "map_of r ''Pricebook2'' = None \<Longrightarrow> map_of r ''Pricebook2Id'' = Some v \<Longrightarrow> resolve_pb_id r = v"
  by (simp add: resolve_pb_id_def safe_rel_def dict_get_def py_or_def)

lemma inferred_catalog_absent:
  "map_of r ''Pricebook2'' = None \<Longrightarrow>
   inferred_catalog r =
     \<lparr>pb_Id = resolve_pb_id r, pb_Name = PNone, pb_IsActive = PNone, pb_IsStandard = PNone,
      pb_Description = PNone, pb_CreatedDate = PNone, pb_LastModifiedDate = PNone, Entries = []\<rparr>"
  by (simp add: inferred_catalog_def resolve_pb_name_def safe_rel_def dict_get_def)

text \<open>
  C6. For a record of the stream without the embedded parent object and with the flat
  parent-identity field set to \<open>v\<close>, in a run that completes: the parent identity
  resolved is \<open>v\<close>; the step of the pass for this record raises nothing; the document has
  exactly one catalog with the identity \<open>v\<close>, and its entry list contains the record's
  entry; and when that identity was neither in the catalog listing nor the parent of an
  earlier record, the catalog is the one created for this record, with the identity \<open>v\<close>
  and every other attribute \<open>None\<close>.
\<close>

theorem absent_parent_object_resolved_from_flat_field:
  assumes run: "main env cfg sf fs = (fs', Inr n)"
    and sch: "discover_schema cfg sf = Inr sch"
    and recs: "fst (query_all_iter sf (pbe_soql cfg sch)) = pre @ r # post"
    and absent: "map_of r ''Pricebook2'' = None"
    and flat: "map_of r ''Pricebook2Id'' = Some v"
  shows "resolve_pb_id r = v \<and> (\<forall>s. \<exists>s'. fan_out_step sch s r = Inr s') \<and>
         (\<exists>doc pb k. fs' (out_json cfg) = Some (Json doc) \<and> key_of v = Some k \<and>
            filter (\<lambda>c. key_of (pb_Id c) = Some k) (pricebooks doc) = [pb] \<and>
            entry_of sch r \<in> set (Entries pb) \<and>
            ((\<forall>p\<in>set (fst (query_all_iter sf build_all_pricebooks_soql)). listing_key p \<noteq> Some k) \<and>
             (\<forall>r'\<in>set pre. record_key r' \<noteq> Some k) \<longrightarrow>
               pb = \<lparr>pb_Id = v, pb_Name = PNone, pb_IsActive = PNone, pb_IsStandard = PNone,
                     pb_Description = PNone, pb_CreatedDate = PNone, pb_LastModifiedDate = PNone,
                     Entries = map (entry_of sch)
                                 (filter (\<lambda>r'. record_key r' = Some k) (pre @ r # post))\<rparr>))"
proof -
  define rs where "rs = pre @ r # post"
  from main_Inr[OF run] sch obtain m0 doc where m0: "query_pricebooks sf = Inr m0"
    and q: "query_all_iter sf (pbe_soql cfg sch) = (rs, None)"
    and keys: "\<forall>r\<in>set rs. record_key r \<noteq> None"
    and fin: "finalize env sch (foldl (index_step sch) m0 rs) = Inr doc"
    and doc: "fs' (out_json cfg) = Some (Json doc)"
    using recs unfolding rs_def by (force simp: prod_eq_iff)
  let ?m = "foldl (index_step sch) m0 rs"
  let ?g = "\<lambda>c. key_of (pb_Id c)"
  have r_in: "r \<in> set rs" by (simp add: rs_def)
  have id: "resolve_pb_id r = v" by (rule resolve_pb_id_absent[OF absent flat])
  from keys r_in obtain k where k: "record_key r = Some k" by auto
  then have kv: "key_of v = Some k" using id by (simp add: record_key_def)
  have step: "\<exists>s'. fan_out_step sch s r = Inr s'" for s
    by (rule fan_out_step_total[OF discover_schema_no_Product[OF sch]]) (simp add: k)
  from query_pricebooks_Inr[OF m0] have fresh: "fresh_index m0"
    and dom0: "fst ` set m0 = (\<Union>pb\<in>set (fst (query_all_iter sf build_all_pricebooks_soql)).
                  set_option (listing_key pb))" by simp_all
  note d = doc_catalogs[OF fresh fin]
  have "k \<in> (\<Union>r\<in>set rs. set_option (record_key r))" using k r_in by force
  then have "k \<in> fst ` set ?m" unfolding keys_foldl_index by blast
  then have "Some k \<in> ?g ` set (pricebooks doc)" unfolding d(4) by simp
  then obtain pb where pb: "pb \<in> set (pricebooks doc)" "?g pb = Some k" by auto
  from filter_distinct_key[OF d(2) pb(1)] pb(2)
  have one: "filter (\<lambda>c. key_of (pb_Id c) = Some k) (pricebooks doc) = [pb]" by simp
  from d(3) pb obtain k' where k': "key_of (pb_Id pb) = Some k'" "(k', pb) \<in> set ?m"
    "Entries pb = entries_for sch k' rs" by blast
  with pb(2) have kk: "k' = k" by simp
  have ent: "entry_of sch r \<in> set (Entries pb)"
    using k'(3) k r_in by (simp add: kk entries_for_def)
  have new: "pb = \<lparr>pb_Id = v, pb_Name = PNone, pb_IsActive = PNone, pb_IsStandard = PNone,
                     pb_Description = PNone, pb_CreatedDate = PNone, pb_LastModifiedDate = PNone,
                     Entries = map (entry_of sch) (filter (\<lambda>r'. record_key r' = Some k) rs)\<rparr>"
    if a: "\<forall>p\<in>set (fst (query_all_iter sf build_all_pricebooks_soql)). listing_key p \<noteq> Some k"
      and b: "\<forall>r'\<in>set pre. record_key r' \<noteq> Some k"
  proof -
    from a have "k \<notin> fst ` set m0" unfolding dom0 by auto
    then have none: "map_of m0 k = None" by (simp add: map_of_eq_None_iff)
    have f: "find (\<lambda>r. record_key r = Some k) rs = Some r"
      unfolding rs_def using b k by (intro find_first_match) auto
    have "distinct (map fst m0)" using fresh by (simp add: fresh_index_def)
    then have "distinct (map fst ?m)" by (rule distinct_foldl_index)
    with k'(2) kk have "map_of ?m k = Some pb" by simp
    then have "pb = (inferred_catalog r)\<lparr>Entries := entries_for sch k rs\<rparr>"
      by (simp add: map_of_foldl_index none f)
    then show ?thesis
      by (simp add: inferred_catalog_absent[OF absent] id entries_for_def)
  qed
  from id step doc kv one ent new show ?thesis unfolding rs_def by blast
qed

theorem absent_parent_object_resolved_from_flat_field_witness:
  "resolve_pb_id rec_orphan = PStr ''pb9'' \<and>
   (\<exists>doc pb. fst (main env_example cfg_example sf_run fs_empty) ''pricebooks_export.json''
                = Some (Json doc) \<and>
      filter (\<lambda>c. key_of (pb_Id c) = Some (KStr ''pb9'')) (pricebooks doc) = [pb] \<and>
      pb_Name pb = PNone \<and> entry_of sch_tier rec_orphan \<in> set (Entries pb))"
proof -
  have 1: "discover_schema cfg_example sf_run = Inr sch_tier" by code_simp
  have 2: "fst (query_all_iter sf_run (pbe_soql cfg_example sch_tier)) = [rec_embedded] @ rec_orphan # []"
    by code_simp
  have 3: "map_of rec_orphan ''Pricebook2'' = None" by (simp add: rec_orphan_def)
  have 4: "map_of rec_orphan ''Pricebook2Id'' = Some (PStr ''pb9'')" by (simp add: rec_orphan_def)
  have 5: "\<forall>p\<in>set (fst (query_all_iter sf_run build_all_pricebooks_soql)). listing_key p \<noteq> Some (KStr ''pb9'')"
    by code_simp
  have 6: "\<forall>r'\<in>set [rec_embedded]. record_key r' \<noteq> Some (KStr ''pb9'')" by code_simp
  have 7: "out_json cfg_example = ''pricebooks_export.json''"
    by (simp add: out_json_def cfg_example_def)
  from absent_parent_object_resolved_from_flat_field[OF main_example_pair 1 2 3 4] 5 6
  show ?thesis unfolding 7 by auto
qed

section \<open>Reading back what the writer of the flat file wrote\<close>

lemma special_chars [simp]:
  "LF \<noteq> CR" "CR \<noteq> LF" "quotechar \<noteq> LF" "quotechar \<noteq> CR" "LF \<noteq> quotechar" "CR \<noteq> quotechar"
  "backslash \<noteq> quotechar" "backslash \<noteq> LF" "backslash \<noteq> CR" "quotechar \<noteq> backslash"
  "CHR '','' \<noteq> quotechar" "CHR '','' \<noteq> LF" "CHR '','' \<noteq> CR" "CHR '','' \<noteq> backslash"
  "quotechar \<noteq> CHR '',''" "LF \<noteq> CHR '',''" "CR \<noteq> CHR '',''"
  by (simp_all add: LF_def CR_def quotechar_def backslash_def)

lemma split_lines_acc:
  "split_lines acc inp =
     (case split_lines [] inp of
        [] \<Rightarrow> (if acc = [] then [] else [acc])
      | l # ls \<Rightarrow> (acc @ l) # ls)"
proof (induction inp arbitrary: acc)
  case Nil
  then show ?case by simp
next
  case (Cons c cs)
  consider "c = LF" | "c = CR" | "c \<noteq> LF" "c \<noteq> CR" by blast
  then show ?case
  proof cases
    case 1
    then show ?thesis by simp
  next
    case 2
    then show ?thesis by (cases cs) simp_all
  next
    case 3
    then have a: "split_lines acc (c # cs) = split_lines (acc @ [c]) cs"
      and b: "split_lines [] (c # cs) = split_lines [c] cs" by simp_all
    show ?thesis
      unfolding a b
      by (subst Cons.IH[of "acc @ [c]"], subst Cons.IH[of "[c]"]) (simp split: list.splits)
  qed
qed

lemma split_lines_nonempty: "inp \<noteq> [] \<Longrightarrow> split_lines [] inp \<noteq> []"
proof (cases inp)
  case Nil
  then show "inp \<noteq> [] \<Longrightarrow> ?thesis" by simp
next
  case (Cons c cs)
  show ?thesis
  proof (cases "c = LF \<or> c = CR")
    case True
    then show ?thesis using Cons by (cases cs) auto
  next
    case False
    then have "split_lines [] inp = split_lines [c] cs" using Cons by simp
    then show ?thesis by (subst (asm) split_lines_acc) (simp split: list.splits)
  qed
qed


lemma read_rows_char:
  assumes "c \<noteq> LF" "c \<noteq> CR" and "parse_process_char d V (Some c) = Inr V'" and "inp \<noteq> []"
  shows "read_rows d V (split_lines [] (c # inp)) = read_rows d V' (split_lines [] inp)"
proof -
  from split_lines_nonempty[OF assms(4)] obtain l ls where l: "split_lines [] inp = l # ls"
    by (cases "split_lines [] inp") auto
  have "split_lines [] (c # inp) = split_lines [c] inp" using assms(1,2) by simp
  also have "\<dots> = (c # l) # ls" by (subst split_lines_acc) (simp add: l)
  finally show ?thesis by (simp add: l assms(3))
qed

lemma in_quoted_char:
  "state V = IN_QUOTED_FIELD \<Longrightarrow> c \<noteq> quotechar \<Longrightarrow>
   parse_process_char d V (Some c) = Inr (parse_add_char V c)"
  by (simp add: parse_process_char_def)

lemma in_quoted_eol:
  "state V = IN_QUOTED_FIELD \<Longrightarrow> parse_process_char d V None = Inr V"
  by (simp add: parse_process_char_def)

lemma state_add_char [simp]: "state (parse_add_char V c) = state V"
  by (simp add: parse_add_char_def)

lemma read_rows_in_quoted:
  assumes q: "state V = IN_QUOTED_FIELD" and c: "c \<noteq> quotechar"
  shows "read_rows d V (split_lines [] (c # inp)) = read_rows d (parse_add_char V c) (split_lines [] inp)"
proof -
  let ?V = "parse_add_char V c"
  have one: "parse_line d V [c] = Inr ?V"
    by (simp add: in_quoted_char[OF q c] in_quoted_eol q)
  have st: "state ?V \<noteq> START_RECORD" by (simp add: q)
  consider "c = LF" | "c = CR" | "c \<noteq> LF" "c \<noteq> CR" by blast
  then show ?thesis
  proof cases
    case 1
    then show ?thesis using one st by simp
  next
    case 2
    show ?thesis
    proof (cases inp)
      case Nil
      then show ?thesis using 2 one st by simp
    next
      case (Cons c2 cs2)
      show ?thesis
      proof (cases "c2 = LF")
        case True
        have two: "parse_line d V [c, c2] = Inr (parse_add_char ?V c2)"
          using True by (simp add: in_quoted_char[OF q c] in_quoted_char in_quoted_eol q)
        have two': "parse_line d ?V [c2] = Inr (parse_add_char ?V c2)"
          using True by (simp add: in_quoted_char in_quoted_eol q)
        show ?thesis using 2 Cons True two two' by (simp add: q)
      next
        case False
        then show ?thesis using 2 Cons one st by simp
      qed
    qed
  next
    case 3
    show ?thesis
    proof (cases "inp = []")
      case True
      then show ?thesis using 3 one st by simp
    next
      case False
      from read_rows_char[OF 3 in_quoted_char[OF q c] False] show ?thesis .
    qed
  qed
qed

lemma join_append_data_csv:
  "fst (join_append_data csv_dialect (c # s)) =
     (if c = quotechar then [quotechar, quotechar]
      else if c = backslash then [backslash, backslash] else [c])
     @ fst (join_append_data csv_dialect s)"
  by (simp add: csv_dialect_def split: prod.splits)

lemma reread_Cons:
  "reread (c # s) = (if c = backslash then [c, c] else [c]) @ reread s"
  by (simp add: reread_def)

lemma read_rows_content:
  assumes "state V = IN_QUOTED_FIELD" and "rest \<noteq> []"
  shows "read_rows d V (split_lines [] (fst (join_append_data csv_dialect s) @ rest))
           = read_rows d (V\<lparr>field := field V @ reread s\<rparr>) (split_lines [] rest)"
  using assms(1)
proof (induction s arbitrary: V)
  case Nil
  then show ?case by (simp add: reread_def)
next
  case (Cons c s)
  let ?tail = "fst (join_append_data csv_dialect s) @ rest"
  have ne: "?tail \<noteq> []" using assms(2) by simp
  consider "c = quotechar" | "c = backslash" | "c \<noteq> quotechar" "c \<noteq> backslash" by blast
  then show ?case
  proof cases
    case 1
    let ?V1 = "V\<lparr>state := QUOTE_IN_QUOTED_FIELD\<rparr>"
    let ?V2 = "parse_add_char V quotechar"
    have s1: "parse_process_char d V (Some quotechar) = Inr ?V1"
      using Cons.prems by (simp add: parse_process_char_def)
    have s2: "parse_process_char d ?V1 (Some quotechar) = Inr ?V2"
      using Cons.prems by (simp add: parse_process_char_def parse_add_char_def)
    have "read_rows d V (split_lines [] (quotechar # quotechar # ?tail))
            = read_rows d ?V1 (split_lines [] (quotechar # ?tail))"
      by (rule read_rows_char[OF _ _ s1]) simp_all
    also have "\<dots> = read_rows d ?V2 (split_lines [] ?tail)"
      by (rule read_rows_char[OF _ _ s2 ne]) simp_all
    also have "\<dots> = read_rows d (?V2\<lparr>field := field ?V2 @ reread s\<rparr>) (split_lines [] rest)"
      by (rule Cons.IH) (simp add: Cons.prems)
    finally have r: "read_rows d V (split_lines [] (quotechar # quotechar # ?tail))
        = read_rows d (?V2\<lparr>field := field ?V2 @ reread s\<rparr>) (split_lines [] rest)" .
    have t: "fst (join_append_data csv_dialect (c # s)) @ rest = quotechar # quotechar # ?tail"
      by (subst join_append_data_csv) (simp add: 1)
    have f: "?V2\<lparr>field := field ?V2 @ reread s\<rparr> = V\<lparr>field := field V @ reread (c # s)\<rparr>"
      by (simp add: reread_Cons parse_add_char_def 1)
    show ?thesis unfolding t using r unfolding f .
  next
    case 2
    let ?V1 = "parse_add_char V backslash"
    let ?V2 = "parse_add_char ?V1 backslash"
    have "read_rows d V (split_lines [] (backslash # backslash # ?tail))
            = read_rows d ?V1 (split_lines [] (backslash # ?tail))"
      by (rule read_rows_in_quoted[OF Cons.prems]) simp
    also have "\<dots> = read_rows d ?V2 (split_lines [] ?tail)"
      by (rule read_rows_in_quoted) (simp_all add: Cons.prems)
    also have "\<dots> = read_rows d (?V2\<lparr>field := field ?V2 @ reread s\<rparr>) (split_lines [] rest)"
      by (rule Cons.IH) (simp add: Cons.prems)
    finally have r: "read_rows d V (split_lines [] (backslash # backslash # ?tail))
        = read_rows d (?V2\<lparr>field := field ?V2 @ reread s\<rparr>) (split_lines [] rest)" .
    have t: "fst (join_append_data csv_dialect (c # s)) @ rest = backslash # backslash # ?tail"
      by (subst join_append_data_csv) (simp add: 2)
    have f: "?V2\<lparr>field := field ?V2 @ reread s\<rparr> = V\<lparr>field := field V @ reread (c # s)\<rparr>"
      by (simp add: reread_Cons parse_add_char_def 2)
    show ?thesis unfolding t using r unfolding f .
  next
    case 3
    let ?V1 = "parse_add_char V c"
    have "read_rows d V (split_lines [] (c # ?tail)) = read_rows d ?V1 (split_lines [] ?tail)"
      by (rule read_rows_in_quoted[OF Cons.prems 3(1)])
    also have "\<dots> = read_rows d (?V1\<lparr>field := field ?V1 @ reread s\<rparr>) (split_lines [] rest)"
      by (rule Cons.IH) (simp add: Cons.prems)
    finally have r: "read_rows d V (split_lines [] (c # ?tail))
        = read_rows d (?V1\<lparr>field := field ?V1 @ reread s\<rparr>) (split_lines [] rest)" .
    have t: "fst (join_append_data csv_dialect (c # s)) @ rest = c # ?tail"
      by (subst join_append_data_csv) (simp add: 3)
    have f: "?V1\<lparr>field := field ?V1 @ reread s\<rparr> = V\<lparr>field := field V @ reread (c # s)\<rparr>"
      by (simp add: reread_Cons parse_add_char_def 3)
    show ?thesis unfolding t using r unfolding f .
  qed
qed


lemma join_append_csv:
  "join_append csv_dialect s = quotechar # fst (join_append_data csv_dialect s) @ [quotechar]"
  by (simp add: join_append_def csv_dialect_def split: prod.splits)

lemma read_rows_field:
  assumes st: "state V = START_RECORD \<or> state V = START_FIELD"
    and d: "d \<noteq> quotechar" and rest: "rest \<noteq> []"
  shows "read_rows d V (split_lines [] (join_append csv_dialect s @ rest))
           = read_rows d (V\<lparr>state := QUOTE_IN_QUOTED_FIELD, field := field V @ reread s\<rparr>)
               (split_lines [] rest)"
proof -
  let ?body = "fst (join_append_data csv_dialect s)"
  let ?V1 = "V\<lparr>state := IN_QUOTED_FIELD\<rparr>"
  let ?V2 = "?V1\<lparr>field := field ?V1 @ reread s\<rparr>"
  let ?V3 = "?V2\<lparr>state := QUOTE_IN_QUOTED_FIELD\<rparr>"
  have s1: "parse_process_char d V (Some quotechar) = Inr ?V1"
    using st by (auto simp: parse_process_char_def start_field_def is_newline_def)
  have s3: "parse_process_char d ?V2 (Some quotechar) = Inr ?V3"
    by (simp add: parse_process_char_def)
  have "read_rows d V (split_lines [] (quotechar # ?body @ quotechar # rest))
          = read_rows d ?V1 (split_lines [] (?body @ quotechar # rest))"
    by (rule read_rows_char[OF _ _ s1]) simp_all
  also have "\<dots> = read_rows d ?V2 (split_lines [] (quotechar # rest))"
    by (rule read_rows_content) simp_all
  also have "\<dots> = read_rows d ?V3 (split_lines [] rest)"
    by (rule read_rows_char[OF _ _ s3 rest]) simp_all
  finally have r: "read_rows d V (split_lines [] (quotechar # ?body @ quotechar # rest))
          = read_rows d ?V3 (split_lines [] rest)" .
  have t: "join_append csv_dialect s @ rest = quotechar # ?body @ quotechar # rest"
    by (simp add: join_append_csv)
  have f: "?V3 = V\<lparr>state := QUOTE_IN_QUOTED_FIELD, field := field V @ reread s\<rparr>" by simp
  show ?thesis unfolding t using r unfolding f .
qed

lemma read_rows_more_fields:
  assumes "state V = QUOTE_IN_QUOTED_FIELD"
  shows "read_rows (CHR '','') V
           (split_lines [] (concat (map (\<lambda>c. CHR '','' # join_append csv_dialect c) cs) @ LF # inp))
         = (case read_rows (CHR '','') parse_reset (split_lines [] inp) of
              (rows, e) \<Rightarrow> ((row_fields V @ field V # map reread cs) # rows, e))"
  using assms
proof (induction cs arbitrary: V)
  case Nil
  have "parse_line (CHR '','') V [LF]
          = Inr ((parse_save_field V)\<lparr>state := START_RECORD\<rparr>)"
    using Nil by (simp add: parse_process_char_def is_newline_def after_line_end_def parse_save_field_def)
  then show ?case by (simp add: parse_save_field_def)
next
  case (Cons c cs)
  let ?tail = "concat (map (\<lambda>c. CHR '','' # join_append csv_dialect c) cs) @ LF # inp"
  let ?V1 = "(parse_save_field V)\<lparr>state := START_FIELD\<rparr>"
  let ?V2 = "?V1\<lparr>state := QUOTE_IN_QUOTED_FIELD, field := field ?V1 @ reread c\<rparr>"
  have s1: "parse_process_char (CHR '','') V (Some (CHR '','')) = Inr ?V1"
    using Cons.prems by (simp add: parse_process_char_def)
  have "read_rows (CHR '','') V (split_lines [] (CHR '','' # join_append csv_dialect c @ ?tail))
          = read_rows (CHR '','') ?V1 (split_lines [] (join_append csv_dialect c @ ?tail))"
    by (rule read_rows_char[OF _ _ s1]) (simp_all add: join_append_csv)
  also have "\<dots> = read_rows (CHR '','') ?V2 (split_lines [] ?tail)"
    by (rule read_rows_field) simp_all
  also have "\<dots> = (case read_rows (CHR '','') parse_reset (split_lines [] inp) of
              (rows, e) \<Rightarrow> ((row_fields ?V2 @ field ?V2 # map reread cs) # rows, e))"
    by (rule Cons.IH) simp
  finally have r: "read_rows (CHR '','') V (split_lines [] (CHR '','' # join_append csv_dialect c @ ?tail))
      = (case read_rows (CHR '','') parse_reset (split_lines [] inp) of
              (rows, e) \<Rightarrow> ((row_fields ?V2 @ field ?V2 # map reread cs) # rows, e))" .
  have t: "concat (map (\<lambda>c. CHR '','' # join_append csv_dialect c) (c # cs)) @ LF # inp
             = CHR '','' # join_append csv_dialect c @ ?tail" by simp
  have f: "row_fields ?V2 @ field ?V2 # map reread cs = row_fields V @ field V # map reread (c # cs)"
    by (simp add: parse_save_field_def)
  show ?case unfolding t using r unfolding f .
qed

lemma str_join_cells:
  "str_join [d] (map f (c # cs)) = f c @ concat (map (\<lambda>x. d # f x) cs)"
  by (induction cs arbitrary: c) simp_all

lemma csv_writerow_Cons:
  "csv_writerow csv_dialect (c # cs)
     = join_append csv_dialect c @ concat (map (\<lambda>x. CHR '','' # join_append csv_dialect x) cs) @ [LF]"
proof -
  have d: "delimiter csv_dialect = CHR '',''" by (simp add: csv_dialect_def)
  have j: "str_join [CHR '',''] (map (join_append csv_dialect) (c # cs))
             = join_append csv_dialect c @ concat (map (\<lambda>x. CHR '','' # join_append csv_dialect x) cs)"
    by (rule str_join_cells)
  have ne: "join_append csv_dialect c \<noteq> []" by (simp add: join_append_csv)
  show ?thesis
    unfolding csv_writerow_def Let_def d j lineterminator_def using ne by simp
qed

lemma read_rows_row:
  "read_rows (CHR '','') parse_reset (split_lines [] (csv_writerow csv_dialect cells @ inp))
     = (case read_rows (CHR '','') parse_reset (split_lines [] inp) of
          (rows, e) \<Rightarrow> (map reread cells # rows, e))"
proof (cases cells)
  case Nil
  have "parse_line (CHR '','') parse_reset [LF] = Inr parse_reset"
    by (simp add: parse_process_char_def is_newline_def parse_reset_def)
  then show ?thesis using Nil
    by (simp add: csv_writerow_def lineterminator_def) (simp add: parse_reset_def)
next
  case (Cons c cs)
  let ?tail = "concat (map (\<lambda>x. CHR '','' # join_append csv_dialect x) cs) @ LF # inp"
  let ?V = "parse_reset\<lparr>state := QUOTE_IN_QUOTED_FIELD, field := field parse_reset @ reread c\<rparr>"
  have "read_rows (CHR '','') parse_reset (split_lines [] (join_append csv_dialect c @ ?tail))
          = read_rows (CHR '','') ?V (split_lines [] ?tail)"
    by (rule read_rows_field) (simp_all add: parse_reset_def)
  also have "\<dots> = (case read_rows (CHR '','') parse_reset (split_lines [] inp) of
              (rows, e) \<Rightarrow> ((row_fields ?V @ field ?V # map reread cs) # rows, e))"
    by (rule read_rows_more_fields) simp
  finally have r: "read_rows (CHR '','') parse_reset (split_lines [] (join_append csv_dialect c @ ?tail))
     = (case read_rows (CHR '','') parse_reset (split_lines [] inp) of
              (rows, e) \<Rightarrow> ((row_fields ?V @ field ?V # map reread cs) # rows, e))" .
  have t: "csv_writerow csv_dialect cells @ inp = join_append csv_dialect c @ ?tail"
    unfolding Cons csv_writerow_Cons by simp
  have f: "row_fields ?V @ field ?V # map reread cs = map reread cells"
    by (simp add: Cons parse_reset_def)
  show ?thesis unfolding t using r unfolding f .
qed

lemma read_rows_written:
  "read_rows (CHR '','') parse_reset (split_lines [] (concat (map (csv_writerow csv_dialect) rs)))
     = (map (map reread) rs, None)"
proof (induction rs)
  case Nil
  then show ?case by (simp add: parse_reset_def)
next
  case (Cons r rs)
  have "concat (map (csv_writerow csv_dialect) (r # rs))
          = csv_writerow csv_dialect r @ concat (map (csv_writerow csv_dialect) rs)" by simp
  then show ?case by (simp only: read_rows_row Cons.IH) simp
qed

lemma csv_reader_csv_text:
  "csv_reader (CHR '','') (csv_text env fieldnames rows)
     = (map (map reread) (fieldnames # map (map (cell_str env)) rows), None)"
proof -
  have "csv_text env fieldnames rows
          = concat (map (csv_writerow csv_dialect) (fieldnames # map (map (cell_str env)) rows))"
    by (simp add: csv_text_def comp_def)
  then show ?thesis unfolding csv_reader_def by (simp only: read_rows_written)
qed

section \<open>The flat file, the index and the document of a completed run\<close>

lemma derive_tsv_other:
  "p \<noteq> tsv_path cfg \<Longrightarrow> fst (derive_tsv cfg fs) p = fs p"
  by (simp add: derive_tsv_def Let_def split: prod.splits)

lemma file_rows_written:
  "file_rows (Some (Text (csv_text env fieldnames rows)))
     = map (map reread) (fieldnames # map (map (cell_str env)) rows)"
  by (simp add: file_rows_def csv_reader_csv_text)

lemma paths_example:
  "out_csv cfg_example = ''pricebooks_export.csv''"
  "out_json cfg_example = ''pricebooks_export.json''"
  "tsv_path cfg_example = ''pricebooks_export.tsv''"
  by code_simp+

text \<open>
  C1. When the run completes, the block that writes the flat file has left in it, below
  the header row, as many data rows as records were taken from the stream, the rows
  being counted as \<open>csv.reader\<close> finds them in the file. That number is the count the
  pass keeps and the run reports, it is the sum of the lengths of the entry lists over
  the catalogs of the final index, over the catalogs of the document as well, and it is
  the document's \<open>total_entry_count\<close>. The flat file still holds these rows at the end of
  the run when neither the tab-delimited file nor the document goes by its name.
\<close>

theorem row_count_equals_records:
  assumes "main env cfg sf fs = (fs', Inr n)"
  shows "\<exists>sch m0 recs fs1 s doc.
           discover_schema cfg sf = Inr sch \<and> query_pricebooks sf = Inr m0 \<and>
           query_all_iter sf (pbe_soql cfg sch) = (recs, None) \<and>
           fan_out_writer env cfg sch m0 (recs, None) fs = (fs1, Inr s) \<and>
           length (data_rows (fs1 (out_csv cfg))) = length recs \<and>
           total_entry_rows s = length recs \<and>
           n = length recs \<and>
           sum_list (map (\<lambda>pb. length (Entries pb)) (map snd (pricebooks_map s))) = length recs \<and>
           fs' (out_json cfg) = Some (Json doc) \<and>
           sum_list (map (\<lambda>pb. length (Entries pb)) (pricebooks doc)) = length recs \<and>
           total_entry_count doc = length recs \<and>
           (tsv_path cfg \<noteq> out_csv cfg \<and> out_json cfg \<noteq> out_csv cfg \<longrightarrow>
              length (data_rows (fs' (out_csv cfg))) = length recs)"
proof -
  from main_Inr[OF assms] obtain sch m0 recs s doc where
    sch: "discover_schema cfg sf = Inr sch" and m0: "query_pricebooks sf = Inr m0"
    and q: "query_all_iter sf (pbe_soql cfg sch) = (recs, None)"
    and keys: "\<forall>r\<in>set recs. record_key r \<noteq> None \<and> build_entry sch r = Inr (entry_of sch r)"
    and fw: "fan_out_writer env cfg sch m0 (recs, None) fs
      = (fs(out_csv cfg \<mapsto> Text (csv_text env (header_cols sch) (map (flat_row sch) recs))), Inr s)"
    and idx: "pricebooks_map s = foldl (index_step sch) m0 recs"
    and cnt: "total_entry_rows s = length recs"
    and fin: "finalize env sch (foldl (index_step sch) m0 recs) = Inr doc"
    and n: "n = length recs"
    and fs': "fs' = (fst (derive_tsv cfg
                  (fs(out_csv cfg \<mapsto> Text (csv_text env (header_cols sch) (map (flat_row sch) recs))))))
            (out_json cfg \<mapsto> Json doc)"
    by blast
  define fs1 where "fs1 = fs(out_csv cfg \<mapsto> Text (csv_text env (header_cols sch) (map (flat_row sch) recs)))"
  have rows: "length (data_rows (fs1 (out_csv cfg))) = length recs"
    by (simp add: fs1_def data_rows_def file_rows_written)
  from query_pricebooks_Inr[OF m0] have fresh: "fresh_index m0" by simp
  have index: "sum_list (map (\<lambda>pb. length (Entries pb)) (map snd (pricebooks_map s))) = length recs"
    using keys by (simp add: idx entries_total_foldl entries_total_fresh[OF fresh]
        entries_total_def[symmetric] comp_def)
  have "sum_list (map (\<lambda>pb. length (Entries pb)) (pricebooks doc))
          = sum_list (map (\<lambda>pb. length (Entries pb)) (map snd (pricebooks_map s)))"
    unfolding finalize_Inr(1)[OF fin] sum_list_sort_key idx ..
  with index have total: "sum_list (map (\<lambda>pb. length (Entries pb)) (pricebooks doc)) = length recs"
    by simp
  with finalize_Inr(3)[OF fin] have tec: "total_entry_count doc = length recs" by simp
  have json: "fs' (out_json cfg) = Some (Json doc)" by (simp add: fs')
  have kept: "length (data_rows (fs' (out_csv cfg))) = length recs"
    if "tsv_path cfg \<noteq> out_csv cfg \<and> out_json cfg \<noteq> out_csv cfg"
  proof -
    from that have "out_csv cfg \<noteq> tsv_path cfg" "out_csv cfg \<noteq> out_json cfg" by auto
    then have "fs' (out_csv cfg) = fs1 (out_csv cfg)"
      unfolding fs' fs1_def[symmetric] by (simp add: derive_tsv_other)
    with rows show ?thesis by simp
  qed
  from sch m0 q fw[folded fs1_def] rows cnt n index json total tec kept
  show ?thesis by blast
qed

theorem row_count_equals_records_witness:
  "snd (main env_example cfg_example sf_run fs_empty) = Inr 2 \<and>
   length (data_rows (fst (main env_example cfg_example sf_run fs_empty) ''pricebooks_export.csv'')) = 2 \<and>
   (\<exists>doc. fst (main env_example cfg_example sf_run fs_empty) ''pricebooks_export.json'' = Some (Json doc) \<and>
      total_entry_count doc = 2 \<and>
      sum_list (map (\<lambda>pb. length (Entries pb)) (pricebooks doc)) = 2)"
  using row_count_equals_records[OF main_example_pair] main_example
  unfolding paths_example by auto




lemma main_listing:
  "catalog_names (fst (main env_example cfg_example sf_listing fs_empty) ''pricebooks_export.json'')
     = [PStr ''Base'', PStr ''alpha'', PStr ''Zeta'']"
  by code_simp

text \<open>
  C9. When the run completes, the catalog array of the document is the list of the
  values of the final index, sorted stably by the two-part key of \<open>sort_key_of\<close>: 0 for a
  standard catalog and 1 otherwise, then the lower-cased name, a missing name counting
  as the empty string. So it holds the very catalogs of the index, each as often as the
  index does, in ascending order of the key; and the entry list of each catalog holds
  the entries of its records in stream order. The run over the listing of the catalogs
  named Zeta and alpha (not standard) and Base (standard) writes a document with the
  catalogs in the order Base, alpha, Zeta.
\<close>

theorem catalogs_sorted_entries_in_stream_order:
  "(main env cfg sf fs = (fs', Inr n) \<longrightarrow>
      (\<exists>sch m0 recs fs1 s doc.
         discover_schema cfg sf = Inr sch \<and> query_pricebooks sf = Inr m0 \<and>
         query_all_iter sf (pbe_soql cfg sch) = (recs, None) \<and>
         fan_out_writer env cfg sch m0 (recs, None) fs = (fs1, Inr s) \<and>
         fs' (out_json cfg) = Some (Json doc) \<and>
         pricebooks doc = sort_key (sort_key_of env) (map snd (pricebooks_map s)) \<and>
         mset (pricebooks doc) = mset (map snd (pricebooks_map s)) \<and>
         sorted (map (sort_key_of env) (pricebooks doc)) \<and>
         (\<forall>pb\<in>set (pricebooks doc). \<exists>k. key_of (pb_Id pb) = Some k \<and>
            Entries pb = map (entry_of sch) (filter (\<lambda>r. record_key r = Some k) recs))))
   \<and> catalog_names (fst (main env_example cfg_example sf_listing fs_empty) ''pricebooks_export.json'')
       = [PStr ''Base'', PStr ''alpha'', PStr ''Zeta'']"
proof (intro conjI impI)
  assume run: "main env cfg sf fs = (fs', Inr n)"
  from main_Inr[OF run] obtain sch m0 recs s doc where
    sch: "discover_schema cfg sf = Inr sch" and m0: "query_pricebooks sf = Inr m0"
    and q: "query_all_iter sf (pbe_soql cfg sch) = (recs, None)"
    and fw: "fan_out_writer env cfg sch m0 (recs, None) fs
      = (fs(out_csv cfg \<mapsto> Text (csv_text env (header_cols sch) (map (flat_row sch) recs))), Inr s)"
    and idx: "pricebooks_map s = foldl (index_step sch) m0 recs"
    and fin: "finalize env sch (foldl (index_step sch) m0 recs) = Inr doc"
    and fs': "fs' = (fst (derive_tsv cfg
                  (fs(out_csv cfg \<mapsto> Text (csv_text env (header_cols sch) (map (flat_row sch) recs))))))
            (out_json cfg \<mapsto> Json doc)"
    by blast
  from query_pricebooks_Inr[OF m0] have fresh: "fresh_index m0" by simp
  have json: "fs' (out_json cfg) = Some (Json doc)" by (simp add: fs')
  have pbs: "pricebooks doc = sort_key (sort_key_of env) (map snd (pricebooks_map s))"
    unfolding idx by (rule finalize_Inr(1)[OF fin])
  have perm: "mset (pricebooks doc) = mset (map snd (pricebooks_map s))"
    unfolding pbs by (simp only: mset_sort)
  have srt: "sorted (map (sort_key_of env) (pricebooks doc))"
    unfolding pbs by simp
  have nested: "\<forall>pb\<in>set (pricebooks doc). \<exists>k. key_of (pb_Id pb) = Some k \<and>
            Entries pb = map (entry_of sch) (filter (\<lambda>r. record_key r = Some k) recs)"
    using doc_catalogs(3)[OF fresh fin] by (auto simp: entries_for_def)
  from sch m0 q fw json pbs perm srt nested
  show "\<exists>sch m0 recs fs1 s doc.
         discover_schema cfg sf = Inr sch \<and> query_pricebooks sf = Inr m0 \<and>
         query_all_iter sf (pbe_soql cfg sch) = (recs, None) \<and>
         fan_out_writer env cfg sch m0 (recs, None) fs = (fs1, Inr s) \<and>
         fs' (out_json cfg) = Some (Json doc) \<and>
         pricebooks doc = sort_key (sort_key_of env) (map snd (pricebooks_map s)) \<and>
         mset (pricebooks doc) = mset (map snd (pricebooks_map s)) \<and>
         sorted (map (sort_key_of env) (pricebooks doc)) \<and>
         (\<forall>pb\<in>set (pricebooks doc). \<exists>k. key_of (pb_Id pb) = Some k \<and>
            Entries pb = map (entry_of sch) (filter (\<lambda>r. record_key r = Some k) recs))"
    by blast
next
  show "catalog_names (fst (main env_example cfg_example sf_listing fs_empty) ''pricebooks_export.json'')
       = [PStr ''Base'', PStr ''alpha'', PStr ''Zeta'']"
    by (rule main_listing)
qed

theorem catalogs_sorted_entries_in_stream_order_witness:
  "snd (main env_example cfg_example sf_run fs_empty) = Inr 2 \<and>
   (\<exists>doc. fst (main env_example cfg_example sf_run fs_empty) ''pricebooks_export.json'' = Some (Json doc) \<and>
      sorted (map (sort_key_of env_example) (pricebooks doc)))"
  using catalogs_sorted_entries_in_stream_order[of env_example cfg_example sf_run fs_empty
      "fst (main env_example cfg_example sf_run fs_empty)" 2]
    main_example_pair main_example
  unfolding paths_example by auto

section \<open>The tab-delimited copy\<close>

lemma reread_id: "backslash \<notin> set s \<Longrightarrow> reread s = s"
  by (induction s) (auto simp: reread_def)

lemma flat_file_emptied_when_named_tsv:
  "snd (run_script env_example cfg_tsv_name sf_run fs_empty) = 0 \<and>
   tsv_path cfg_tsv_name = out_csv cfg_tsv_name \<and>
   fst (run_script env_example cfg_tsv_name sf_run fs_empty) ''export.tsv'' = Some (Text [])"
  by code_simp

text \<open>
  C3. The writer of the flat file is given the backslash as its escape character and the
  reader that makes the tab-delimited copy is given none. So what is read back from the
  flat file is, row by row and cell by cell, what was written with every backslash
  doubled: a cell without a backslash comes back as written, also when it holds the
  delimiter, the quote character, a tab or a line end, and a cell with a backslash does
  not. In the run over a product whose name is the three characters \<open>A\<close>, backslash, \<open>B\<close>
  the flat file is written from that name, and both the flat file read back and the
  tab-delimited copy read back have \<open>A\<close>, backslash, backslash, \<open>B\<close> in its place.
\<close>

theorem backslash_cell_read_back_doubled:
  "csv_reader (CHR '','') (csv_text env fieldnames rows)
     = (map (map reread) (fieldnames # map (map (cell_str env)) rows), None) \<and>
   (backslash \<notin> set s \<longrightarrow> reread s = s) \<and>
   reread (''a,'' @ [quotechar, TAB, LF, CR] @ ''b'') = ''a,'' @ [quotechar, TAB, LF, CR] @ ''b'' \<and>
   reread (''A'' @ [backslash] @ ''B'') = ''A'' @ [backslash, backslash] @ ''B'' \<and>
   snd (main env_example cfg_example sf_backslash fs_empty) = Inr 1 \<and>
   column ''Product.Name'' [header_cols sch_plain, map (cell_str env_example) (flat_row sch_plain rec_backslash)]
     = [Some (''A'' @ [backslash] @ ''B'')] \<and>
   column ''Product.Name''
     (file_rows (fst (main env_example cfg_example sf_backslash fs_empty) ''pricebooks_export.csv''))
     = [Some (''A'' @ [backslash, backslash] @ ''B'')] \<and>
   column ''Product.Name''
     (fst (csv_reader TAB (read_text (fst (main env_example cfg_example sf_backslash fs_empty))
                             ''pricebooks_export.tsv'')))
     = [Some (''A'' @ [backslash, backslash] @ ''B'')]"
proof (intro conjI)
  show "csv_reader (CHR '','') (csv_text env fieldnames rows)
     = (map (map reread) (fieldnames # map (map (cell_str env)) rows), None)"
    by (rule csv_reader_csv_text)
  show "backslash \<notin> set s \<longrightarrow> reread s = s"
    by (simp add: reread_id)
  show "reread (''a,'' @ [quotechar, TAB, LF, CR] @ ''b'') = ''a,'' @ [quotechar, TAB, LF, CR] @ ''b''"
    by code_simp
  show "reread (''A'' @ [backslash] @ ''B'') = ''A'' @ [backslash, backslash] @ ''B''"
    by code_simp
  show "snd (main env_example cfg_example sf_backslash fs_empty) = Inr 1"
    by code_simp
  show "column ''Product.Name'' [header_cols sch_plain, map (cell_str env_example) (flat_row sch_plain rec_backslash)]
     = [Some (''A'' @ [backslash] @ ''B'')]"
    by code_simp
  show "column ''Product.Name''
     (file_rows (fst (main env_example cfg_example sf_backslash fs_empty) ''pricebooks_export.csv''))
     = [Some (''A'' @ [backslash, backslash] @ ''B'')]"
    by code_simp
  show "column ''Product.Name''
     (fst (csv_reader TAB (read_text (fst (main env_example cfg_example sf_backslash fs_empty))
                             ''pricebooks_export.tsv'')))
     = [Some (''A'' @ [backslash, backslash] @ ''B'')]"
    by code_simp
qed

theorem backslash_cell_read_back_doubled_witness:
  "backslash \<notin> set ''a,b'' \<and> reread ''a,b'' = ''a,b''"
  using backslash_cell_read_back_doubled[where s = "''a,b''"] by (simp add: backslash_def)

section \<open>The currency column\<close>

lemma set_product_field_Inr:
  "set_product_field e f v = Inr e' \<longleftrightarrow>
     (\<exists>pd. map_of e ''Product'' = Some (PDict pd) \<and>
           e' = dict_set e ''Product'' (PDict (dict_set pd f v)))"
proof (cases "map_of e ''Product''")
  case None
  then show ?thesis by (simp add: set_product_field_def dict_item_def)
next
  case (Some p)
  then show ?thesis by (cases p) (auto simp: set_product_field_def dict_item_def)
qed

lemma set_product_fields_other:
  "set_product_fields r e fs = Inr e' \<Longrightarrow> k \<noteq> ''Product'' \<Longrightarrow> map_of e' k = map_of e k"
proof (induction fs arbitrary: e)
  case Nil
  then show ?case by simp
next
  case (Cons f fs)
  from Cons.prems(1) obtain e1 where e1: "set_product_field e f (safe_rel r ''Product2'' f) = Inr e1"
    and rest: "set_product_fields r e1 fs = Inr e'"
    by (auto simp: bind_err_Inr)
  from e1 Cons.prems(2) have "map_of e1 k = map_of e k"
    unfolding set_product_field_Inr by (auto simp: map_of_dict_set)
  with Cons.IH[OF rest Cons.prems(2)] show ?case by simp
qed

lemma set_product_fields_keys:
  "set_product_fields r e fs = Inr e' \<Longrightarrow> map_of e ''Product'' = Some (PDict pd) \<Longrightarrow>
   \<exists>pd'. map_of e' ''Product'' = Some (PDict pd') \<and> fst ` set pd' = fst ` set pd \<union> set fs"
proof (induction fs arbitrary: e pd)
  case Nil
  then show ?case by simp
next
  case (Cons f fs)
  from Cons.prems(1) obtain e1 where e1: "set_product_field e f (safe_rel r ''Product2'' f) = Inr e1"
    and rest: "set_product_fields r e1 fs = Inr e'"
    by (auto simp: bind_err_Inr)
  from e1 Cons.prems(2)
  have p1: "map_of e1 ''Product'' = Some (PDict (dict_set pd f (safe_rel r ''Product2'' f)))"
    unfolding set_product_field_Inr by (auto simp: map_of_dict_set)
  from Cons.IH[OF rest p1] obtain pd' where "map_of e' ''Product'' = Some (PDict pd')"
    and "fst ` set pd' = fst ` set (dict_set pd f (safe_rel r ''Product2'' f)) \<union> set fs"
    by blast
  then show ?case by (simp add: dom_dict_set)
qed

lemma foldl_dict_set_lookup:
  "map_of (foldl (\<lambda>e fcf. dict_set e fcf (g fcf)) e fs) k
     = (if k \<in> set fs then Some (g k) else map_of e k)"
  by (induction fs arbitrary: e) (simp_all add: map_of_dict_set)


lemma build_entry_cases:
  assumes "build_entry sch r = Inr e"
  shows "(include_product2 sch \<longrightarrow>
            set_product_fields r
              (foldl (\<lambda>e fcf. dict_set e fcf (dict_get r fcf))
            (if include_currency sch
             then dict_set (entry_literal r) ''CurrencyIsoCode'' (dict_get r ''CurrencyIsoCode'')
             else entry_literal r) (pbe_custom_fields sch))
              (product2_custom_fields sch) = Inr e) \<and>
         (\<not> include_product2 sch \<longrightarrow>
            e = foldl (\<lambda>e fcf. dict_set e fcf (dict_get r fcf))
            (if include_currency sch
             then dict_set (entry_literal r) ''CurrencyIsoCode'' (dict_get r ''CurrencyIsoCode'')
             else entry_literal r) (pbe_custom_fields sch))"
  using assms unfolding build_entry_def Let_def by (cases "include_product2 sch") simp_all

lemma entry_literal_Product:
  "map_of (entry_literal r) ''Product'' = Some (PDict
        [(''Id'', dict_get r ''Product2Id''),
         (''Name'', safe_rel r ''Product2'' ''Name''),
         (''ProductCode'', safe_rel r ''Product2'' ''ProductCode''),
         (''Family'', safe_rel r ''Product2'' ''Family''),
         (''IsActive'', safe_rel r ''Product2'' ''IsActive''),
         (''Description'', safe_rel r ''Product2'' ''Description'')])"
  by (simp add: entry_literal_def)

lemma entry_literal_no_currency: "map_of (entry_literal r) ''CurrencyIsoCode'' = None"
  by (simp add: entry_literal_def)

lemma build_entry_currency:
  assumes b: "build_entry sch r = Inr e" and c: "''CurrencyIsoCode'' \<notin> set (pbe_custom_fields sch)"
  shows "map_of e ''CurrencyIsoCode''
           = (if include_currency sch then Some (dict_get r ''CurrencyIsoCode'') else None)"
proof -
  define e2 where e2: "e2 = foldl (\<lambda>e fcf. dict_set e fcf (dict_get r fcf))
            (if include_currency sch
             then dict_set (entry_literal r) ''CurrencyIsoCode'' (dict_get r ''CurrencyIsoCode'')
             else entry_literal r) (pbe_custom_fields sch)"
  from build_entry_cases[OF b]
  have p: "include_product2 sch \<Longrightarrow> set_product_fields r e2 (product2_custom_fields sch) = Inr e"
    and n: "\<not> include_product2 sch \<Longrightarrow> e = e2"
    unfolding e2 by blast+
  have "map_of e ''CurrencyIsoCode'' = map_of e2 ''CurrencyIsoCode''"
  proof (cases "include_product2 sch")
    case True
    from set_product_fields_other[OF p[OF True]] show ?thesis by simp
  next
    case False
    from n[OF False] show ?thesis by simp
  qed
  also have "\<dots> = (if include_currency sch then Some (dict_get r ''CurrencyIsoCode'') else None)"
    unfolding e2 foldl_dict_set_lookup using c
    by (simp add: map_of_dict_set entry_literal_no_currency)
  finally show ?thesis .
qed

lemma build_entry_product_keys:
  assumes b: "build_entry sch r = Inr e" and c: "''Product'' \<notin> set (pbe_custom_fields sch)"
  shows "\<exists>pd. map_of e ''Product'' = Some (PDict pd) \<and>
           fst ` set pd \<subseteq> {''Id'', ''Name'', ''ProductCode'', ''Family'', ''IsActive'', ''Description''}
                            \<union> set (product2_custom_fields sch)"
proof -
  define e2 where e2: "e2 = foldl (\<lambda>e fcf. dict_set e fcf (dict_get r fcf))
            (if include_currency sch
             then dict_set (entry_literal r) ''CurrencyIsoCode'' (dict_get r ''CurrencyIsoCode'')
             else entry_literal r) (pbe_custom_fields sch)"
  from build_entry_cases[OF b]
  have p: "include_product2 sch \<Longrightarrow> set_product_fields r e2 (product2_custom_fields sch) = Inr e"
    and n: "\<not> include_product2 sch \<Longrightarrow> e = e2"
    unfolding e2 by blast+
  let ?pd0 = "[(''Id'', dict_get r ''Product2Id''),
         (''Name'', safe_rel r ''Product2'' ''Name''),
         (''ProductCode'', safe_rel r ''Product2'' ''ProductCode''),
         (''Family'', safe_rel r ''Product2'' ''Family''),
         (''IsActive'', safe_rel r ''Product2'' ''IsActive''),
         (''Description'', safe_rel r ''Product2'' ''Description'')]"
  have p2: "map_of e2 ''Product'' = Some (PDict ?pd0)"
    unfolding e2 foldl_dict_set_lookup using c
    by (simp add: map_of_dict_set entry_literal_Product)
  have k0: "fst ` set ?pd0 = {''Id'', ''Name'', ''ProductCode'', ''Family'', ''IsActive'', ''Description''}"
    by simp
  show ?thesis
  proof (cases "include_product2 sch")
    case True
    from set_product_fields_keys[OF p[OF True] p2] obtain pd' where
      "map_of e ''Product'' = Some (PDict pd')"
      "fst ` set pd' = fst ` set ?pd0 \<union> set (product2_custom_fields sch)" by blast
    then show ?thesis unfolding k0 by blast
  next
    case False
    from n[OF False] p2 have "map_of e ''Product'' = Some (PDict ?pd0)" by simp
    then show ?thesis using k0 by blast
  qed
qed


lemma discover_schema_parts:
  assumes "discover_schema cfg sf = Inr sch"
  shows "detect_multi_currency sf = Inr (include_currency sch)"
    and "discover_custom_fields sf ''PricebookEntry'' = Inr (pbe_custom_fields sch)"
    and "(if INCLUDE_PRODUCT2_CUSTOM_FIELDS cfg then discover_custom_fields sf ''Product2'' else Inr [])
           = Inr (product2_custom_fields sch)"
    and "include_product2 sch = INCLUDE_PRODUCT2_CUSTOM_FIELDS cfg"
  using assms unfolding discover_schema_def by (auto simp: bind_err_Inr)

lemma header_with_currency:
  "include_currency sch \<Longrightarrow>
   header_cols sch = list_insert 7 ''Entry.CurrencyIsoCode'' core_cols
      @ map (\<lambda>f. ''Entry.'' @ f) (pbe_custom_fields sch)
      @ (if include_product2 sch then map (\<lambda>f. ''Product.'' @ f) (product2_custom_fields sch) else [])"
  by (simp add: header_cols_def base_cols_def dynamic_cols_def)

lemma header_without_currency:
  "\<not> include_currency sch \<Longrightarrow>
   header_cols sch = core_cols
      @ map (\<lambda>f. ''Entry.'' @ f) (pbe_custom_fields sch)
      @ (if include_product2 sch then map (\<lambda>f. ''Product.'' @ f) (product2_custom_fields sch) else [])"
  by (simp add: header_cols_def base_cols_def dynamic_cols_def)

lemma header_currency_at_7:
  "include_currency sch \<Longrightarrow> 7 < length (header_cols sch) \<and> header_cols sch ! 7 = ''Entry.CurrencyIsoCode''"
  by (simp add: header_cols_def base_cols_def list_insert_def core_cols_def nth_append)

lemma header_no_currency:
  assumes "\<not> include_currency sch" and "''CurrencyIsoCode'' \<notin> set (pbe_custom_fields sch)"
  shows "''Entry.CurrencyIsoCode'' \<notin> set (header_cols sch)"
  using assms unfolding set_header_cols by (auto simp: core_cols_def)

lemma dict_get_Some: "map_of d k = Some v \<Longrightarrow> dict_get d k = v"
  by (simp add: dict_get_def)

lemma flat_row_currency:
  assumes cur: "include_currency sch" and b: "build_entry sch r = Inr (entry_of sch r)"
    and c: "''CurrencyIsoCode'' \<notin> set (pbe_custom_fields sch)"
  shows "length (flat_row sch r) = length (header_cols sch) \<and>
         flat_row sch r ! 7 = dict_get r ''CurrencyIsoCode''"
proof -
  from header_currency_at_7[OF cur] have h: "7 < length (header_cols sch)"
    "header_cols sch ! 7 = ''Entry.CurrencyIsoCode''" by simp_all
  have "flat_row sch r ! 7
          = nested_cell (resolve_pb_id r) (resolve_pb_name r) (entry_of sch r) ''Entry.CurrencyIsoCode''"
    unfolding flat_row_def using h by simp
  also have "\<dots> = dict_get (entry_of sch r) ''CurrencyIsoCode''"
    by (simp add: nested_cell_def)
  also have "\<dots> = dict_get r ''CurrencyIsoCode''"
    using build_entry_currency[OF b c] cur by (simp add: dict_get_Some)
  finally show ?thesis by (simp add: flat_row_def)
qed


lemma main_nocur: "snd (main env_example cfg_example sf_nocur fs_empty) = Inr 2"
  by code_simp

text \<open>
  C7. In a run that completes, the schema carries the answer of the capability probe and
  the custom fields in the order in which the schema discoverer returned them, and the
  document's \<open>multi_currency\<close> is that answer. If the probe reports no currency support,
  the header is the core columns followed by the custom columns, no column of it is the
  currency column, and no entry of the document, nor its product, has a currency
  attribute. If it reports support, the header is the core columns with the currency
  column inserted at position 7, followed by the custom columns; every row has as many
  cells as the header has columns, and its cell at position 7 is the record's currency,
  \<open>None\<close> (written as the empty text) where the record has none; and every entry of the
  document has the currency attribute. The rows of the flat file are these rows.
\<close>

theorem currency_column_follows_probe:
  assumes run: "main env cfg sf fs = (fs', Inr n)"
  shows "\<exists>sch m0 recs fs1 s doc.
           discover_schema cfg sf = Inr sch \<and> query_pricebooks sf = Inr m0 \<and>
           query_all_iter sf (pbe_soql cfg sch) = (recs, None) \<and>
           fan_out_writer env cfg sch m0 (recs, None) fs = (fs1, Inr s) \<and>
           fs' (out_json cfg) = Some (Json doc) \<and>
           detect_multi_currency sf = Inr (include_currency sch) \<and>
           discover_custom_fields sf ''PricebookEntry'' = Inr (pbe_custom_fields sch) \<and>
           (if INCLUDE_PRODUCT2_CUSTOM_FIELDS cfg then discover_custom_fields sf ''Product2'' else Inr [])
             = Inr (product2_custom_fields sch) \<and>
           file_rows (fs1 (out_csv cfg))
             = map (map reread)
                 (header_cols sch # map (\<lambda>r. map (cell_str env) (flat_row sch r)) recs) \<and>
           multi_currency doc = include_currency sch \<and>
           (\<not> include_currency sch \<longrightarrow>
              header_cols sch = core_cols
                @ map (\<lambda>f. ''Entry.'' @ f) (pbe_custom_fields sch)
                @ (if INCLUDE_PRODUCT2_CUSTOM_FIELDS cfg
                   then map (\<lambda>f. ''Product.'' @ f) (product2_custom_fields sch) else []) \<and>
              ''Entry.CurrencyIsoCode'' \<notin> set (header_cols sch) \<and>
              (\<forall>pb\<in>set (pricebooks doc). \<forall>e\<in>set (Entries pb).
                 map_of e ''CurrencyIsoCode'' = None \<and>
                 (\<exists>pd. map_of e ''Product'' = Some (PDict pd) \<and> map_of pd ''CurrencyIsoCode'' = None))) \<and>
           (include_currency sch \<longrightarrow>
              header_cols sch = list_insert 7 ''Entry.CurrencyIsoCode'' core_cols
                @ map (\<lambda>f. ''Entry.'' @ f) (pbe_custom_fields sch)
                @ (if INCLUDE_PRODUCT2_CUSTOM_FIELDS cfg
                   then map (\<lambda>f. ''Product.'' @ f) (product2_custom_fields sch) else []) \<and>
              header_cols sch ! 7 = ''Entry.CurrencyIsoCode'' \<and>
              (\<forall>r\<in>set recs. length (flat_row sch r) = length (header_cols sch) \<and>
                 flat_row sch r ! 7 = dict_get r ''CurrencyIsoCode'') \<and>
              (\<forall>pb\<in>set (pricebooks doc). \<forall>e\<in>set (Entries pb).
                 map_of e ''CurrencyIsoCode'' \<noteq> None))"
proof -
  from main_Inr[OF run] obtain sch m0 recs s doc where
    sch: "discover_schema cfg sf = Inr sch" and m0: "query_pricebooks sf = Inr m0"
    and q: "query_all_iter sf (pbe_soql cfg sch) = (recs, None)"
    and keys: "\<forall>r\<in>set recs. record_key r \<noteq> None \<and> build_entry sch r = Inr (entry_of sch r)"
    and fw: "fan_out_writer env cfg sch m0 (recs, None) fs
      = (fs(out_csv cfg \<mapsto> Text (csv_text env (header_cols sch) (map (flat_row sch) recs))), Inr s)"
    and fin: "finalize env sch (foldl (index_step sch) m0 recs) = Inr doc"
    and fs': "fs' = (fst (derive_tsv cfg
                  (fs(out_csv cfg \<mapsto> Text (csv_text env (header_cols sch) (map (flat_row sch) recs))))))
            (out_json cfg \<mapsto> Json doc)"
    by blast
  define fs1 where "fs1 = fs(out_csv cfg \<mapsto> Text (csv_text env (header_cols sch) (map (flat_row sch) recs)))"
  note parts = discover_schema_parts[OF sch]
  have rows: "file_rows (fs1 (out_csv cfg))
      = map (map reread) (header_cols sch # map (\<lambda>r. map (cell_str env) (flat_row sch r)) recs)"
    by (simp add: fs1_def file_rows_written comp_def)
  have json: "fs' (out_json cfg) = Some (Json doc)" by (simp add: fs')
  have mc: "multi_currency doc = include_currency sch" by (rule finalize_Inr(4)[OF fin])
  from discover_schema_suffix[OF sch] not_custom_names
  have nc: "''CurrencyIsoCode'' \<notin> set (pbe_custom_fields sch)"
    and np: "''CurrencyIsoCode'' \<notin> set (product2_custom_fields sch)" by blast+
  from query_pricebooks_Inr[OF m0] have fresh: "fresh_index m0" by simp
  have entry: "\<exists>r\<in>set recs. e = entry_of sch r \<and> build_entry sch r = Inr e"
    if "pb \<in> set (pricebooks doc)" "e \<in> set (Entries pb)" for pb e
  proof -
    from doc_catalogs(3)[OF fresh fin] that(1) obtain k where "Entries pb = entries_for sch k recs"
      by blast
    with that(2) obtain r where "r \<in> set recs" "e = entry_of sch r"
      by (auto simp: entries_for_def)
    with keys show ?thesis by auto
  qed
  have absent: "header_cols sch = core_cols
                @ map (\<lambda>f. ''Entry.'' @ f) (pbe_custom_fields sch)
                @ (if INCLUDE_PRODUCT2_CUSTOM_FIELDS cfg
                   then map (\<lambda>f. ''Product.'' @ f) (product2_custom_fields sch) else []) \<and>
              ''Entry.CurrencyIsoCode'' \<notin> set (header_cols sch) \<and>
              (\<forall>pb\<in>set (pricebooks doc). \<forall>e\<in>set (Entries pb).
                 map_of e ''CurrencyIsoCode'' = None \<and>
                 (\<exists>pd. map_of e ''Product'' = Some (PDict pd) \<and> map_of pd ''CurrencyIsoCode'' = None))"
    if no: "\<not> include_currency sch"
  proof (intro conjI ballI)
    show "header_cols sch = core_cols
                @ map (\<lambda>f. ''Entry.'' @ f) (pbe_custom_fields sch)
                @ (if INCLUDE_PRODUCT2_CUSTOM_FIELDS cfg
                   then map (\<lambda>f. ''Product.'' @ f) (product2_custom_fields sch) else [])"
      using header_without_currency[OF no] unfolding parts(4) .
    show "''Entry.CurrencyIsoCode'' \<notin> set (header_cols sch)"
      by (rule header_no_currency[OF no nc])
  next
    fix pb e assume "pb \<in> set (pricebooks doc)" "e \<in> set (Entries pb)"
    from entry[OF this] obtain r where b: "build_entry sch r = Inr e" by blast
    from build_entry_currency[OF b nc] no show "map_of e ''CurrencyIsoCode'' = None" by simp
    from build_entry_product_keys[OF b discover_schema_no_Product[OF sch]] obtain pd where
      pd: "map_of e ''Product'' = Some (PDict pd)"
      "fst ` set pd \<subseteq> {''Id'', ''Name'', ''ProductCode'', ''Family'', ''IsActive'', ''Description''}
                            \<union> set (product2_custom_fields sch)" by blast
    from pd(2) np have "''CurrencyIsoCode'' \<notin> fst ` set pd" by auto
    then have "map_of pd ''CurrencyIsoCode'' = None" by (simp add: map_of_eq_None_iff)
    with pd(1) show "\<exists>pd. map_of e ''Product'' = Some (PDict pd) \<and> map_of pd ''CurrencyIsoCode'' = None"
      by blast
  qed
  have present: "header_cols sch = list_insert 7 ''Entry.CurrencyIsoCode'' core_cols
                @ map (\<lambda>f. ''Entry.'' @ f) (pbe_custom_fields sch)
                @ (if INCLUDE_PRODUCT2_CUSTOM_FIELDS cfg
                   then map (\<lambda>f. ''Product.'' @ f) (product2_custom_fields sch) else []) \<and>
              header_cols sch ! 7 = ''Entry.CurrencyIsoCode'' \<and>
              (\<forall>r\<in>set recs. length (flat_row sch r) = length (header_cols sch) \<and>
                 flat_row sch r ! 7 = dict_get r ''CurrencyIsoCode'') \<and>
              (\<forall>pb\<in>set (pricebooks doc). \<forall>e\<in>set (Entries pb).
                 map_of e ''CurrencyIsoCode'' \<noteq> None)"
    if yes: "include_currency sch"
  proof (intro conjI ballI)
    show "header_cols sch = list_insert 7 ''Entry.CurrencyIsoCode'' core_cols
                @ map (\<lambda>f. ''Entry.'' @ f) (pbe_custom_fields sch)
                @ (if INCLUDE_PRODUCT2_CUSTOM_FIELDS cfg
                   then map (\<lambda>f. ''Product.'' @ f) (product2_custom_fields sch) else [])"
      using header_with_currency[OF yes] unfolding parts(4) .
    show "header_cols sch ! 7 = ''Entry.CurrencyIsoCode''"
      using header_currency_at_7[OF yes] by simp
  next
    fix r assume "r \<in> set recs"
    with keys have b: "build_entry sch r = Inr (entry_of sch r)" by simp
    from flat_row_currency[OF yes b nc]
    show "length (flat_row sch r) = length (header_cols sch)"
      and "flat_row sch r ! 7 = dict_get r ''CurrencyIsoCode''" by simp_all
  next
    fix pb e assume "pb \<in> set (pricebooks doc)" "e \<in> set (Entries pb)"
    from entry[OF this] obtain r where b: "build_entry sch r = Inr e" by blast
    from build_entry_currency[OF b nc] yes show "map_of e ''CurrencyIsoCode'' \<noteq> None" by simp
  qed
  from sch m0 q fw[folded fs1_def] json parts(1,2,3) rows mc absent present
  show ?thesis by blast
qed

theorem currency_column_follows_probe_witness:
  "(snd (main env_example cfg_example sf_run fs_empty) = Inr 2 \<and>
    detect_multi_currency sf_run = Inr True \<and>
    (\<exists>doc. fst (main env_example cfg_example sf_run fs_empty) ''pricebooks_export.json'' = Some (Json doc) \<and>
       multi_currency doc \<and>
       (\<forall>pb\<in>set (pricebooks doc). \<forall>e\<in>set (Entries pb). map_of e ''CurrencyIsoCode'' \<noteq> None))) \<and>
   (snd (main env_example cfg_example sf_nocur fs_empty) = Inr 2 \<and>
    detect_multi_currency sf_nocur = Inr False \<and>
    (\<exists>doc. fst (main env_example cfg_example sf_nocur fs_empty) ''pricebooks_export.json'' = Some (Json doc) \<and>
       \<not> multi_currency doc \<and>
       (\<forall>pb\<in>set (pricebooks doc). \<forall>e\<in>set (Entries pb). map_of e ''CurrencyIsoCode'' = None)))"
proof -
  have a: "detect_multi_currency sf_run = Inr True" by code_simp
  have b: "detect_multi_currency sf_nocur = Inr False" by code_simp
  have p: "main env_example cfg_example sf_nocur fs_empty
             = (fst (main env_example cfg_example sf_nocur fs_empty), Inr 2)"
    using main_nocur by (simp add: prod_eq_iff)
  from currency_column_follows_probe[OF main_example_pair] a main_example
  have 1: "snd (main env_example cfg_example sf_run fs_empty) = Inr 2 \<and>
    detect_multi_currency sf_run = Inr True \<and>
    (\<exists>doc. fst (main env_example cfg_example sf_run fs_empty) ''pricebooks_export.json'' = Some (Json doc) \<and>
       multi_currency doc \<and>
       (\<forall>pb\<in>set (pricebooks doc). \<forall>e\<in>set (Entries pb). map_of e ''CurrencyIsoCode'' \<noteq> None))"
    unfolding paths_example by auto
  from currency_column_follows_probe[OF p] b main_nocur
  have 2: "snd (main env_example cfg_example sf_nocur fs_empty) = Inr 2 \<and>
    detect_multi_currency sf_nocur = Inr False \<and>
    (\<exists>doc. fst (main env_example cfg_example sf_nocur fs_empty) ''pricebooks_export.json'' = Some (Json doc) \<and>
       \<not> multi_currency doc \<and>
       (\<forall>pb\<in>set (pricebooks doc). \<forall>e\<in>set (Entries pb). map_of e ''CurrencyIsoCode'' = None))"
    unfolding paths_example by auto
  from 1 2 show ?thesis by blast
qed

end
